theory Spec2Isabelle
  imports Main "HOL-Library.AList"
begin

section \<open>Hierarchy nodes and links\<close>

text \<open>
  The visualisation works on d3 hierarchy nodes: JavaScript objects with a \<open>depth\<close>, a
  \<open>parent\<close> reference (or \<open>null\<close>) and a \<open>data\<close> payload.  The predicates below compare
  nodes with \<open>===\<close>, that is by object identity, so a node is a reference into a store of
  node objects and \<open>===\<close> is equality of references.
\<close>

type_synonym ref = nat

record hnode =
  depth :: nat
  parent :: "ref option"

type_synonym heap = "ref \<Rightarrow> hnode"

text \<open>One link object \<open>{source, target}\<close> as produced by \<open>data.links()\<close>.\<close>

record link =
  source :: ref
  target :: ref

subsection \<open>NodeManager: selection state of a node\<close>

text \<open>
  \<^verbatim>\<open>isActiveNode(node, selectedNode)\<close> and \<^verbatim>\<open>isSiblingNode(node, selectedNode)\<close>;
  \<open>None\<close> is \<open>null\<close>.  The JavaScript results are used for their truthiness only
  (\<open>classed\<close>), which is what the boolean is.
\<close>

fun isActiveNode :: "heap \<Rightarrow> ref \<Rightarrow> ref option \<Rightarrow> bool" where
  "isActiveNode h node None = (depth (h node) = 0)"
| "isActiveNode h node (Some sel) =
     (node = sel \<or>
      (parent (h sel) \<noteq> None \<and> Some node = parent (h sel)) \<or>
      depth (h node) = 0)"

fun isSiblingNode :: "heap \<Rightarrow> ref \<Rightarrow> ref option \<Rightarrow> bool" where
  "isSiblingNode h node None = False"
| "isSiblingNode h node (Some sel) =
     (if depth (h node) = 0 then False
      else parent (h node) = parent (h sel) \<and> node \<noteq> sel)"

subsection \<open>PathManager: selection state of a link\<close>

text \<open>
  \<^verbatim>\<open>isActivePath(link, selectedNode)\<close> and \<^verbatim>\<open>isSiblingPath(link, selectedNode)\<close>.
  \<open>selectedNode.parent?.parent\<close> is \<open>grandparent\<close>: undefined (falsy) when there is no parent.
\<close>

definition grandparent :: "heap \<Rightarrow> ref \<Rightarrow> ref option" where
  "grandparent h n = (case parent (h n) of None \<Rightarrow> None | Some p \<Rightarrow> parent (h p))"

fun isActivePath :: "heap \<Rightarrow> link option \<Rightarrow> ref option \<Rightarrow> bool" where
  "isActivePath h None sel = False"
| "isActivePath h (Some l) None = False"
| "isActivePath h (Some l) (Some sel) =
     (if depth (h sel) = 0 then True
      else if depth (h sel) = 1 then
        (parent (h sel) \<noteq> None \<and> Some (source l) = parent (h sel) \<and> target l = sel) \<or>
        source l = sel
      else if depth (h sel) = 2 then
        target l = sel \<or>
        (parent (h sel) \<noteq> None \<and> Some (source l) = parent (h sel)) \<or>
        (grandparent h sel \<noteq> None \<and> Some (source l) = grandparent h sel \<and>
         Some (target l) = parent (h sel))
      else False)"

fun isSiblingPath :: "heap \<Rightarrow> link option \<Rightarrow> ref option \<Rightarrow> bool" where
  "isSiblingPath h None sel = False"
| "isSiblingPath h (Some l) None = False"
| "isSiblingPath h (Some l) (Some sel) =
     (if depth (h sel) = 1 then
        parent (h sel) \<noteq> None \<and> Some (source l) = parent (h sel) \<and> target l \<noteq> sel
      else if depth (h sel) = 2 then
        (parent (h sel) \<noteq> None \<and> Some (source l) = parent (h sel) \<and> target l \<noteq> sel) \<or>
        (grandparent h sel \<noteq> None \<and> Some (source l) \<noteq> grandparent h sel \<and>
         depth (h (target l)) = 2 \<and> target l \<noteq> sel)
      else False)"

subsection \<open>The active path of the specification\<close>

text \<open>
  The specification's wording, for comparison with the code: the active path is the
  sequence of edges from the root to the selected node.  It is read off the parent
  references; the walk is bounded by the node's depth.
\<close>

fun edgesUp :: "heap \<Rightarrow> nat \<Rightarrow> ref \<Rightarrow> link list" where
  "edgesUp h 0 n = []"
| "edgesUp h (Suc k) n =
     (case parent (h n) of
        None \<Rightarrow> []
      | Some p \<Rightarrow> edgesUp h k p @ [\<lparr>source = p, target = n\<rparr>])"

definition spec_activePath :: "heap \<Rightarrow> ref \<Rightarrow> link list" where
  "spec_activePath h sel = edgesUp h (depth (h sel)) sel"

text \<open>
  The data model's invariant on one node: the root has depth 0 and no parent, any other
  node is one level below its parent.
\<close>

definition wf_node :: "heap \<Rightarrow> ref \<Rightarrow> bool" where
  "wf_node h n =
     (case parent (h n) of
        None \<Rightarrow> depth (h n) = 0
      | Some p \<Rightarrow> depth (h n) = Suc (depth (h p)))"

text \<open>
  The example tree of the specification: a root with children A and B, where A has the
  children C and D.  Every other reference is a detached root-like object.
\<close>

definition nodeR :: ref where "nodeR = 0"
definition nodeA :: ref where "nodeA = 1"
definition nodeB :: ref where "nodeB = 2"
definition nodeC :: ref where "nodeC = 3"
definition nodeD :: ref where "nodeD = 4"

definition exampleTree :: heap where
  "exampleTree n =
     (if n = 1 \<or> n = 2 then \<lparr>depth = 1, parent = Some 0\<rparr>
      else if n = 3 \<or> n = 4 then \<lparr>depth = 2, parent = Some 1\<rparr>
      else \<lparr>depth = 0, parent = None\<rparr>)"

section \<open>DisplayManager: profile selection\<close>

text \<open>
  \<open>config.dimensions.breakpoints\<close> and the three profile objects of \<open>config.profiles\<close>.
  \<^verbatim>\<open>getActiveProfile()\<close> takes no argument and reads \<open>window.innerWidth\<close>.
\<close>

record breakpoints =
  small :: int
  medium :: int

datatype profile = Mobile | Tablet | Desktop

definition getActiveProfile :: "breakpoints \<Rightarrow> int \<Rightarrow> profile" where
  "getActiveProfile bp innerWidth =
     (if innerWidth < small bp then Mobile
      else if innerWidth < medium bp then Tablet
      else Desktop)"

text \<open>
  The container's box, as \<open>getBoundingClientRect()\<close> returns it, and the window.
  \<^verbatim>\<open>calculateDimensions()\<close> reads both: the box feeds the sizes, the profile comes from
  \<^verbatim>\<open>getActiveProfile()\<close>.  The sizes are floating-point products and are not part of this
  development; \<open>calculateDimensions_profile\<close> is the \<open>profile\<close> local of that method.
\<close>

record rect =
  rect_width :: int
  rect_height :: int

record window =
  innerWidth :: int
  innerHeight :: int

definition calculateDimensions_profile :: "breakpoints \<Rightarrow> window \<Rightarrow> rect \<Rightarrow> profile" where
  "calculateDimensions_profile bp win box = getActiveProfile bp (innerWidth win)"

section \<open>OuterElementManager: label layout\<close>

text \<open>
  \<^verbatim>\<open>text.split(' ')\<close> and \<^verbatim>\<open>words.join(' ')\<close>.  Splitting never returns an empty array:
  the empty string splits into one empty word, and two spaces in a row give an empty
  word between them.  A character stands for one UTF-16 code unit, which is what
  \<open>length\<close> counts in JavaScript.
\<close>

fun split_sp :: "string \<Rightarrow> string list" where
  "split_sp [] = [[]]"
| "split_sp (c # cs) =
     (if c = CHR '' '' then [] # split_sp cs
      else (case split_sp cs of
              [] \<Rightarrow> [[c]]
            | w # ws \<Rightarrow> (c # w) # ws))"

fun join_sp :: "string list \<Rightarrow> string" where
  "join_sp [] = []"
| "join_sp [w] = w"
| "join_sp (w # v # ws) = w @ CHR '' '' # join_sp (v # ws)"

text \<open>
  The layout object of \<^verbatim>\<open>calculateLabelLayout(node)\<close>: \<open>type\<close> 'single' with the text, or
  \<open>type\<close> 'double' with \<open>firstLine\<close> and \<open>secondLine\<close>.  The width, height and position
  entries are floating-point values computed from the angle and are left out.
  \<open>config.text.thresholds.longText\<close> is the first argument, \<open>node.data.name\<close> the second.
  \<open>Math.ceil(wordCount / 2)\<close> is \<open>(wordCount + 1) div 2\<close>, and
  \<open>firstHalf.length > secondHalf.length * 1.5\<close> is compared after doubling both sides,
  which is exact for lengths.
\<close>

datatype layout = Single string | Double string string

definition calculateLabelLayout :: "int \<Rightarrow> string \<Rightarrow> layout" where
  "calculateLabelLayout longText text =
     (let words = split_sp text;
          totalLength = length text;
          wordCount = length words
      in if wordCount > 1 \<and> (int totalLength > longText \<or> wordCount > 2) then
           (let midpoint = (wordCount + 1) div 2;
                firstHalf = join_sp (take midpoint words);
                secondHalf = join_sp (drop midpoint words);
                midpoint' = (if 2 * length firstHalf > 3 * length secondHalf
                             then midpoint - 1 else midpoint)
            in Double (join_sp (take midpoint' words)) (join_sp (drop midpoint' words)))
         else Single text)"


section \<open>StateManager\<close>

subsection \<open>State, partial states and events\<close>

text \<open>
  Thrown values.  \<open>TypeError\<close> is what JavaScript raises when a property of \<open>null\<close> is
  read or a method that the object does not have is called; \<open>Failure\<close> stands for an
  error object raised by a collaborator or a listener.  A value names one error object:
  two values are equal exactly when \<open>===\<close> holds of the objects.
\<close>

datatype exn = TypeError string | Failure nat

text \<open>
  \<open>this.state\<close> of the StateManager, as the constructor builds it.  Objects (nodes, the
  data root, the dimensions, the \<open>contentLoaded\<close> Set) are held by reference; times are
  milliseconds.
\<close>

record vstate =
  isInitialized :: bool
  isDestroying :: bool
  isTransitioning :: bool
  isUpdating :: bool
  isError :: bool
  error :: "exn option"
  data :: "ref option"
  selectedNode :: "ref option"
  previousNode :: "ref option"
  zoomLevel :: int
  dimensions :: "ref option"
  contentLoaded :: ref
  lastUpdate :: int

datatype field =
  IsInitialized | IsDestroying | IsTransitioning | IsUpdating | IsError | Error | Data |
  SelectedNode | PreviousNode | ZoomLevel | Dimensions | ContentLoaded | LastUpdate

datatype val = VBool bool | VNum int | VRef "ref option" | VErr "exn option"

fun get :: "field \<Rightarrow> vstate \<Rightarrow> val" where
  "get IsInitialized s = VBool (isInitialized s)"
| "get IsDestroying s = VBool (isDestroying s)"
| "get IsTransitioning s = VBool (isTransitioning s)"
| "get IsUpdating s = VBool (isUpdating s)"
| "get IsError s = VBool (isError s)"
| "get Error s = VErr (error s)"
| "get Data s = VRef (data s)"
| "get SelectedNode s = VRef (selectedNode s)"
| "get PreviousNode s = VRef (previousNode s)"
| "get ZoomLevel s = VNum (zoomLevel s)"
| "get Dimensions s = VRef (dimensions s)"
| "get ContentLoaded s = VRef (Some (contentLoaded s))"
| "get LastUpdate s = VNum (lastUpdate s)"

text \<open>
  The argument of \<open>updateState\<close> is an object literal naming some of the fields: a list of
  typed entries, in the order they are written.
\<close>

datatype upd =
  SetIsInitialized bool | SetIsDestroying bool | SetIsTransitioning bool |
  SetIsUpdating bool | SetIsError bool | SetError "exn option" | SetData "ref option" |
  SetSelectedNode "ref option" | SetPreviousNode "ref option" | SetZoomLevel int |
  SetDimensions "ref option" | SetContentLoaded ref | SetLastUpdate int

fun key :: "upd \<Rightarrow> field" where
  "key (SetIsInitialized b) = IsInitialized"
| "key (SetIsDestroying b) = IsDestroying"
| "key (SetIsTransitioning b) = IsTransitioning"
| "key (SetIsUpdating b) = IsUpdating"
| "key (SetIsError b) = IsError"
| "key (SetError e) = Error"
| "key (SetData d) = Data"
| "key (SetSelectedNode n) = SelectedNode"
| "key (SetPreviousNode n) = PreviousNode"
| "key (SetZoomLevel z) = ZoomLevel"
| "key (SetDimensions d) = Dimensions"
| "key (SetContentLoaded r) = ContentLoaded"
| "key (SetLastUpdate t) = LastUpdate"

fun newValue :: "upd \<Rightarrow> val" where
  "newValue (SetIsInitialized b) = VBool b"
| "newValue (SetIsDestroying b) = VBool b"
| "newValue (SetIsTransitioning b) = VBool b"
| "newValue (SetIsUpdating b) = VBool b"
| "newValue (SetIsError b) = VBool b"
| "newValue (SetError e) = VErr e"
| "newValue (SetData d) = VRef d"
| "newValue (SetSelectedNode n) = VRef n"
| "newValue (SetPreviousNode n) = VRef n"
| "newValue (SetZoomLevel z) = VNum z"
| "newValue (SetDimensions d) = VRef d"
| "newValue (SetContentLoaded r) = VRef (Some r)"
| "newValue (SetLastUpdate t) = VNum t"

fun assign :: "upd \<Rightarrow> vstate \<Rightarrow> vstate" where
  "assign (SetIsInitialized b) s = s\<lparr>isInitialized := b\<rparr>"
| "assign (SetIsDestroying b) s = s\<lparr>isDestroying := b\<rparr>"
| "assign (SetIsTransitioning b) s = s\<lparr>isTransitioning := b\<rparr>"
| "assign (SetIsUpdating b) s = s\<lparr>isUpdating := b\<rparr>"
| "assign (SetIsError b) s = s\<lparr>isError := b\<rparr>"
| "assign (SetError e) s = s\<lparr>error := e\<rparr>"
| "assign (SetData d) s = s\<lparr>data := d\<rparr>"
| "assign (SetSelectedNode n) s = s\<lparr>selectedNode := n\<rparr>"
| "assign (SetPreviousNode n) s = s\<lparr>previousNode := n\<rparr>"
| "assign (SetZoomLevel z) s = s\<lparr>zoomLevel := z\<rparr>"
| "assign (SetDimensions d) s = s\<lparr>dimensions := d\<rparr>"
| "assign (SetContentLoaded r) s = s\<lparr>contentLoaded := r\<rparr>"
| "assign (SetLastUpdate t) s = s\<lparr>lastUpdate := t\<rparr>"

text \<open>
  \<open>{...this.state, ...newState}\<close>: the entries are assigned in order, a later one winning.
  \<open>Object.keys(newState)\<close> with \<open>newState[key]\<close>: every key once, at the position of its
  first entry, with the value of its last.
\<close>

definition merge :: "upd list \<Rightarrow> vstate \<Rightarrow> vstate" where
  "merge p s = fold assign p s"

definition objEntries :: "upd list \<Rightarrow> (field \<times> val) list" where
  "objEntries p = fold (\<lambda>u es. AList.update (key u) (newValue u) es) p []"

datatype event =
  TransitionStart | TransitionEnd | TransitionError exn |
  FieldChange field val val int

subsection \<open>The manager and its collaborators\<close>

text \<open>
  The StateManager object, with what its methods reach: \<open>this.state\<close> (\<open>null\<close> after
  \<open>destroy\<close>), the handle \<open>this.transitionTimeout\<close>, the pending timeouts of the page
  (handle and earliest firing time), the contents of the Set objects, and the clock.
  Three logs record the calls that leave the manager: the events passed to \<open>emit\<close>, the
  ids passed to \<open>parent.cache.preload\<close> and the errors passed to \<open>parent.handleError\<close>.
\<close>

record StateManager =
  state :: "vstate option"
  transitionTimeout :: "nat option"
  timers :: "(nat \<times> int) list"
  nextHandle :: nat
  sets :: "ref \<Rightarrow> nat set"
  now :: int
  reads :: nat
  emitted :: "event list"
  preloads :: "nat list"
  hostErrors :: "exn list"

text \<open>
  What the manager calls and does not define.  \<open>tick k\<close> is the time that passes before
  the \<open>k\<close>-th reading of \<open>Date.now()\<close>; \<open>listener\<close> is the outcome of the callbacks
  registered for an event (\<open>Some\<close> when one throws); \<open>preload\<close> is
  \<open>parent.cache.preload\<close>; \<open>nodeId\<close> reads \<open>newNode.id\<close>.  The last five are called but
  defined neither by StateManager (\<open>handleDataChange\<close>, \<open>handleTransitionChange\<close>,
  \<open>handleErrorChange\<close>, and \<open>removeAllListeners\<close>, which the main controller calls when
  it is destroyed) nor by VisualizationManager (\<open>updateSelection\<close>): they are parameters,
  and \<open>asWritten\<close> below is their behaviour in the code as it stands, where each call
  raises a TypeError.
\<close>

record env =
  tick :: "nat \<Rightarrow> nat"
  listener :: "event \<Rightarrow> exn option"
  preload :: "nat \<Rightarrow> exn option"
  nodeId :: "ref \<Rightarrow> nat"
  updateSelection :: "ref option \<Rightarrow> ref option \<Rightarrow> exn option"
  handleDataChange :: "ref option \<Rightarrow> exn option"
  handleTransitionChange :: "bool \<Rightarrow> exn option"
  handleErrorChange :: "exn option \<Rightarrow> exn option"
  removeAllListeners :: "exn option"

definition asWritten :: env where
  "asWritten =
     \<lparr>tick = (\<lambda>k. 0),
      listener = (\<lambda>ev. None),
      preload = (\<lambda>i. None),
      nodeId = (\<lambda>r. r),
      updateSelection = (\<lambda>new old. Some (TypeError ''updateSelection is not a function'')),
      handleDataChange = (\<lambda>d. Some (TypeError ''handleDataChange is not a function'')),
      handleTransitionChange =
        (\<lambda>b. Some (TypeError ''handleTransitionChange is not a function'')),
      handleErrorChange = (\<lambda>e. Some (TypeError ''handleErrorChange is not a function'')),
      removeAllListeners = Some (TypeError ''removeAllListeners is not a function'')\<rparr>"

text \<open>The same collaborators with the five absent methods present and doing nothing.\<close>

definition quiet :: env where
  "quiet =
     asWritten\<lparr>updateSelection := (\<lambda>new old. None), handleDataChange := (\<lambda>d. None),
       handleTransitionChange := (\<lambda>b. None), handleErrorChange := (\<lambda>e. None),
       removeAllListeners := None\<rparr>"

subsection \<open>Control flow\<close>

text \<open>
  A method takes the manager and returns the manager it leaves, with its result:
  \<open>Inl\<close> a thrown value, \<open>Inr\<close> a returned one.  Within one call nothing else runs: an
  \<open>await\<close> is modelled as waiting for its operand, with no timeout callback and no other
  call to the manager in between.
\<close>

type_synonym 'a res = "(exn + 'a) \<times> StateManager"

definition ret :: "'a \<Rightarrow> StateManager \<Rightarrow> 'a res" where
  "ret x m = (Inr x, m)"

definition throw :: "exn \<Rightarrow> StateManager \<Rightarrow> 'a res" where
  "throw e m = (Inl e, m)"

definition bnd :: "(StateManager \<Rightarrow> 'a res) \<Rightarrow> ('a \<Rightarrow> StateManager \<Rightarrow> 'b res) \<Rightarrow>
    StateManager \<Rightarrow> 'b res" where
  "bnd f g m = (case f m of (Inl e, m') \<Rightarrow> (Inl e, m') | (Inr x, m') \<Rightarrow> g x m')"

definition tryCatch :: "(StateManager \<Rightarrow> 'a res) \<Rightarrow> (exn \<Rightarrow> StateManager \<Rightarrow> 'a res) \<Rightarrow>
    StateManager \<Rightarrow> 'a res" where
  "tryCatch f h m = (case f m of (Inl e, m') \<Rightarrow> h e m' | (Inr x, m') \<Rightarrow> (Inr x, m'))"

definition tryFinally :: "(StateManager \<Rightarrow> 'a res) \<Rightarrow> (StateManager \<Rightarrow> 'b res) \<Rightarrow>
    StateManager \<Rightarrow> 'a res" where
  "tryFinally f g m =
     (case f m of (r, m') \<Rightarrow>
        (case g m' of (Inl e, m'') \<Rightarrow> (Inl e, m'') | (Inr y, m'') \<Rightarrow> (r, m'')))"

definition callOut :: "exn option \<Rightarrow> StateManager \<Rightarrow> unit res" where
  "callOut r m = (case r of None \<Rightarrow> (Inr (), m) | Some e \<Rightarrow> (Inl e, m))"

text \<open>Reading and writing \<open>this.state.x\<close>; both raise a TypeError when \<open>this.state\<close> is null.\<close>

definition gets :: "(vstate \<Rightarrow> 'a) \<Rightarrow> StateManager \<Rightarrow> 'a res" where
  "gets g m =
     (case state m of
        None \<Rightarrow> (Inl (TypeError ''this.state is null''), m)
      | Some s \<Rightarrow> (Inr (g s), m))"

definition modify :: "(vstate \<Rightarrow> vstate) \<Rightarrow> StateManager \<Rightarrow> unit res" where
  "modify f m =
     (case state m of
        None \<Rightarrow> (Inl (TypeError ''this.state is null''), m)
      | Some s \<Rightarrow> (Inr (), m\<lparr>state := Some (f s)\<rparr>))"

definition dateNow :: "env \<Rightarrow> StateManager \<Rightarrow> int res" where
  "dateNow E m =
     (let t = now m + int (tick E (reads m))
      in (Inr t, m\<lparr>now := t, reads := Suc (reads m)\<rparr>))"

text \<open>\<^verbatim>\<open>emit(event, data)\<close>: the callbacks run at once; one that throws ends the emit.\<close>

definition emit :: "env \<Rightarrow> event \<Rightarrow> StateManager \<Rightarrow> unit res" where
  "emit E ev m = callOut (listener E ev) (m\<lparr>emitted := emitted m @ [ev]\<rparr>)"

subsection \<open>Transitions\<close>

definition clearTimeout :: "nat \<Rightarrow> StateManager \<Rightarrow> StateManager" where
  "clearTimeout h m = m\<lparr>timers := filter (\<lambda>(h', t). h' \<noteq> h) (timers m)\<rparr>"

text \<open>\<open>setTimeout(callback, delay)\<close> at the time of the last clock reading.\<close>

definition setTimeout :: "int \<Rightarrow> StateManager \<Rightarrow> nat \<times> StateManager" where
  "setTimeout delay m =
     (nextHandle m,
      m\<lparr>timers := timers m @ [(nextHandle m, now m + delay)],
        nextHandle := Suc (nextHandle m)\<rparr>)"

definition startTransition :: "env \<Rightarrow> StateManager \<Rightarrow> unit res" where
  "startTransition E m =
     bnd (modify (\<lambda>s. s\<lparr>isTransitioning := True\<rparr>)) (\<lambda>_. emit E TransitionStart)
       (case transitionTimeout m of None \<Rightarrow> m | Some h \<Rightarrow> clearTimeout h m)"

definition finalizeTransition :: "env \<Rightarrow> StateManager \<Rightarrow> unit res" where
  "finalizeTransition E =
     bnd (modify (\<lambda>s. s\<lparr>isTransitioning := False\<rparr>)) (\<lambda>_.
     bnd (\<lambda>m. ret () (m\<lparr>transitionTimeout := None\<rparr>)) (\<lambda>_.
     emit E TransitionEnd))"

definition minTransitionTime :: int where
  "minTransitionTime = 100"

definition endTransition :: "env \<Rightarrow> StateManager \<Rightarrow> unit res" where
  "endTransition E =
     bnd (dateNow E) (\<lambda>t.
     bnd (gets lastUpdate) (\<lambda>l.
       let elapsedTime = t - l
       in if elapsedTime < minTransitionTime then
            (\<lambda>m. case setTimeout (minTransitionTime - elapsedTime) m of
                   (h, m') \<Rightarrow> ret () (m'\<lparr>transitionTimeout := Some h\<rparr>))
          else finalizeTransition E))"

definition handleTransitionError :: "env \<Rightarrow> exn \<Rightarrow> StateManager \<Rightarrow> unit res" where
  "handleTransitionError E e =
     bnd (modify (\<lambda>s. s\<lparr>isTransitioning := False\<rparr>)) (\<lambda>_.
     bnd (modify (\<lambda>s. s\<lparr>error := Some e\<rparr>)) (\<lambda>_.
     bnd (modify (\<lambda>s. s\<lparr>isError := True\<rparr>)) (\<lambda>_.
     bnd (emit E (TransitionError e)) (\<lambda>_.
     throw e))))"

subsection \<open>updateState and its handlers\<close>

text \<open>
  The conditional of \<open>handleSelectionChange\<close>, for a node that is not null:
  \<^verbatim>\<open>if (!this.state.contentLoaded.has(newNode.id)) { await preload(newNode.id); add(newNode.id) }\<close>.
\<close>

definition preloadIfNeeded :: "env \<Rightarrow> ref \<Rightarrow> StateManager \<Rightarrow> unit res" where
  "preloadIfNeeded E n =
     bnd (gets contentLoaded) (\<lambda>c m.
       if nodeId E n \<in> sets m c then ret () m
       else bnd (callOut (preload E (nodeId E n)))
              (\<lambda>_ m'. ret () (m'\<lparr>sets := (sets m')(c := insert (nodeId E n) (sets m' c))\<rparr>))
              (m\<lparr>preloads := preloads m @ [nodeId E n]\<rparr>))"

text \<open>\<open>this.parent.handleError(error)\<close>: the host records the error; the manager is not touched.\<close>

definition hostHandleError :: "exn \<Rightarrow> StateManager \<Rightarrow> unit res" where
  "hostHandleError e m = ret () (m\<lparr>hostErrors := hostErrors m @ [e]\<rparr>)"

text \<open>
  \<^verbatim>\<open>handleSelectionChange(newNode, oldNode)\<close>.  It calls \<open>updateState\<close>, which is its first
  argument here.  The first call is outside the \<open>try\<close>; the last is the \<open>finally\<close> block.
\<close>

definition selectionEffects :: "env \<Rightarrow> ref option \<Rightarrow> ref option \<Rightarrow> StateManager \<Rightarrow> unit res" where
  "selectionEffects E newNode oldNode =
     tryCatch
       (bnd (case newNode of None \<Rightarrow> ret () | Some n \<Rightarrow> preloadIfNeeded E n)
          (\<lambda>_. callOut (updateSelection E newNode oldNode)))
       hostHandleError"

definition handleSelectionChange_with ::
    "(upd list \<Rightarrow> StateManager \<Rightarrow> bool res) \<Rightarrow> env \<Rightarrow> ref option \<Rightarrow> ref option \<Rightarrow>
     StateManager \<Rightarrow> unit res" where
  "handleSelectionChange_with update E newNode oldNode =
     bnd (update [SetIsTransitioning True]) (\<lambda>_.
     tryFinally (selectionEffects E newNode oldNode) (update [SetIsTransitioning False]))"

text \<open>
  \<^verbatim>\<open>handleStateChange(oldState, newState)\<close>.  \<open>newState\<close> is the object that \<open>this.state\<close>
  refers to when the method is entered, so the assignment to \<open>newState.previousNode\<close>
  writes \<open>this.state\<close>; the later tests read \<open>data\<close>, \<open>isTransitioning\<close>, \<open>isError\<close> and
  \<open>error\<close> of that object, which nothing writes in between.
\<close>

definition handleStateChange ::
    "(ref option \<Rightarrow> ref option \<Rightarrow> StateManager \<Rightarrow> unit res) \<Rightarrow> env \<Rightarrow> vstate \<Rightarrow> vstate \<Rightarrow>
     StateManager \<Rightarrow> unit res" where
  "handleStateChange onSelection E oldState newState =
     bnd (if selectedNode newState \<noteq> selectedNode oldState then
            bnd (if selectedNode oldState \<noteq> None
                 then modify (\<lambda>s. s\<lparr>previousNode := selectedNode oldState\<rparr>)
                 else ret ())
              (\<lambda>_. onSelection (selectedNode newState) (selectedNode oldState))
          else ret ()) (\<lambda>_.
     bnd (if data newState \<noteq> data oldState
          then callOut (handleDataChange E (data newState)) else ret ()) (\<lambda>_.
     bnd (if isTransitioning newState \<noteq> isTransitioning oldState
          then callOut (handleTransitionChange E (isTransitioning newState)) else ret ()) (\<lambda>_.
     if isError newState \<noteq> isError oldState
     then callOut (handleErrorChange E (error newState)) else ret ())))"

text \<open>The \<open>forEach\<close> over \<open>Object.keys(newState)\<close> that emits the change events.\<close>

fun emitChanges :: "env \<Rightarrow> vstate \<Rightarrow> (field \<times> val) list \<Rightarrow> StateManager \<Rightarrow> unit res" where
  "emitChanges E oldState [] = ret ()"
| "emitChanges E oldState ((k, v) # es) =
     bnd (if v \<noteq> get k oldState
          then bnd (dateNow E) (\<lambda>t. emit E (FieldChange k (get k oldState) v t))
          else ret ())
       (\<lambda>_. emitChanges E oldState es)"

text \<open>The \<open>try\<close> block of \<open>updateState\<close>, and the method.\<close>

definition updateState_try ::
    "(ref option \<Rightarrow> ref option \<Rightarrow> StateManager \<Rightarrow> unit res) \<Rightarrow> env \<Rightarrow> upd list \<Rightarrow>
     StateManager \<Rightarrow> bool res" where
  "updateState_try onSelection E newState =
     bnd (startTransition E) (\<lambda>_.
     bnd (gets (\<lambda>s. s)) (\<lambda>oldState.
     bnd (modify (merge newState)) (\<lambda>_.
     bnd (handleStateChange onSelection E oldState (merge newState oldState)) (\<lambda>_.
     bnd (emitChanges E oldState (objEntries newState)) (\<lambda>_.
     bnd (dateNow E) (\<lambda>t.
     bnd (modify (\<lambda>s. s\<lparr>lastUpdate := t\<rparr>)) (\<lambda>_.
     bnd (endTransition E) (\<lambda>_.
     ret True))))))))"

definition updateState_with ::
    "(ref option \<Rightarrow> ref option \<Rightarrow> StateManager \<Rightarrow> unit res) \<Rightarrow> env \<Rightarrow> upd list \<Rightarrow>
     StateManager \<Rightarrow> bool res" where
  "updateState_with onSelection E newState =
     bnd (gets isDestroying) (\<lambda>destroying.
       if destroying then ret False
       else tryCatch (updateState_try onSelection E newState)
              (\<lambda>e. bnd (handleTransitionError E e) (\<lambda>_. ret False)))"

text \<open>
  \<open>updateState\<close> and \<open>handleSelectionChange\<close> call each other.  The calls made by
  \<open>handleSelectionChange\<close> name \<open>isTransitioning\<close> only, so they leave the selection as it
  is and do not reach \<open>handleSelectionChange\<close> again: \<open>updateState_inner\<close> is
  \<open>updateState\<close> for such calls, and \<open>updateState_unfold\<close> below shows that the two
  agree on them.
\<close>

definition updateState_inner :: "env \<Rightarrow> upd list \<Rightarrow> StateManager \<Rightarrow> bool res" where
  "updateState_inner E = updateState_with (\<lambda>new old. ret ()) E"

definition handleSelectionChange ::
    "env \<Rightarrow> ref option \<Rightarrow> ref option \<Rightarrow> StateManager \<Rightarrow> unit res" where
  "handleSelectionChange E = handleSelectionChange_with (updateState_inner E) E"

definition updateState :: "env \<Rightarrow> upd list \<Rightarrow> StateManager \<Rightarrow> bool res" where
  "updateState E = updateState_with (handleSelectionChange E) E"

definition initialState :: vstate where
  "initialState =
     \<lparr>isInitialized = False, isDestroying = False, isTransitioning = False,
      isUpdating = False, isError = False, error = None, data = None,
      selectedNode = None, previousNode = None, zoomLevel = 1, dimensions = None,
      contentLoaded = 0, lastUpdate = 0\<rparr>"

definition newStateManager :: StateManager where
  "newStateManager =
     \<lparr>state = Some initialState, transitionTimeout = None, timers = [], nextHandle = 1,
      sets = (\<lambda>r. {}), now = 0, reads = 0, emitted = [], preloads = [], hostErrors = []\<rparr>"

text \<open>The code as it stands, with a cache whose preload always fails.\<close>

definition failingPreload :: env where
  "failingPreload = asWritten\<lparr>preload := (\<lambda>i. Some (Failure 1))\<rparr>"

text \<open>A fresh manager in which node 4 is already selected.\<close>

definition selected4 :: StateManager where
  "selected4 = newStateManager\<lparr>state := Some (initialState\<lparr>selectedNode := Some 4\<rparr>)\<rparr>"

section \<open>Relations kept by the methods\<close>

text \<open>A relation between the manager before and after that a method keeps, whatever it returns.\<close>

definition keeps :: "(StateManager \<Rightarrow> StateManager \<Rightarrow> bool) \<Rightarrow> (StateManager \<Rightarrow> 'a res) \<Rightarrow> bool" where
  "keeps R f = (\<forall>m. R m (snd (f m)))"

definition reflTrans :: "(StateManager \<Rightarrow> StateManager \<Rightarrow> bool) \<Rightarrow> bool" where
  "reflTrans R = ((\<forall>m. R m m) \<and> (\<forall>a b c. R a b \<longrightarrow> R b c \<longrightarrow> R a c))"

text \<open>The same for the calls that return normally.\<close>

definition keepsOk :: "(StateManager \<Rightarrow> StateManager \<Rightarrow> bool) \<Rightarrow> (StateManager \<Rightarrow> 'a res) \<Rightarrow> bool" where
  "keepsOk R f = (\<forall>m x m'. f m = (Inr x, m') \<longrightarrow> R m m')"

text \<open>
  \<open>frame K P C\<close>: \<open>this.state\<close> stays null or stays an object whose fields outside \<open>K\<close>
  are unchanged; the events emitted are added at the end of the log and satisfy \<open>P\<close>; and,
  when \<open>C\<close> holds, no preload was requested, no Set was written and no error was passed
  to the host.
\<close>

definition frame :: "field set \<Rightarrow> (event \<Rightarrow> bool) \<Rightarrow> bool \<Rightarrow> StateManager \<Rightarrow> StateManager \<Rightarrow> bool" where
  "frame K P C m m' =
     ((case state m of
         None \<Rightarrow> state m' = None
       | Some s \<Rightarrow> (\<exists>s'. state m' = Some s' \<and> (\<forall>k. k \<notin> K \<longrightarrow> get k s' = get k s))) \<and>
      (\<exists>new. emitted m' = emitted m @ new \<and> (\<forall>ev \<in> set new. P ev)) \<and>
      (C \<longrightarrow> preloads m' = preloads m \<and> sets m' = sets m \<and> hostErrors m' = hostErrors m))"

definition anyEvent :: "event \<Rightarrow> bool" where
  "anyEvent ev = True"

text \<open>
  Kinds of events: the change events of the nested calls made by \<open>handleSelectionChange\<close>,
  the end of a transition, and the change events that a call emits for the entries of its
  argument against the snapshot \<open>old\<close>.  \<open>innerKeys\<close> are the fields those nested calls and
  the handlers write.
\<close>

definition flagEvent :: "event \<Rightarrow> bool" where
  "flagEvent ev = (case ev of FieldChange k ov nv t \<Rightarrow> k = IsTransitioning | _ \<Rightarrow> True)"

definition endEvent :: "event \<Rightarrow> bool" where
  "endEvent ev = (ev = TransitionEnd)"

definition namedChange :: "vstate \<Rightarrow> (field \<times> val) list \<Rightarrow> event \<Rightarrow> bool" where
  "namedChange old es ev =
     (case ev of
        FieldChange k ov nv t \<Rightarrow> (k, nv) \<in> set es \<and> ov = get k old \<and> nv \<noteq> ov
      | _ \<Rightarrow> False)"

definition innerKeys :: "field set" where
  "innerKeys = {IsTransitioning, LastUpdate, PreviousNode}"

section \<open>Reconcilers: nodes, paths, outer elements\<close>

subsection \<open>Data and the keyed join\<close>




text \<open>
  The elements of one kind in the container, by the key of the datum bound to them, and
  the transitions started on them.  \<open>selection.data(items, key)\<close> splits into the items
  without an element (enter), the elements whose key is among the items (update) and the
  elements whose key is not (exit).  An exiting element stays in the container until its
  transition ends.
\<close>

datatype 'k anim = FadeOut 'k | FadeIn 'k | Reposition 'k | Restyle 'k

record 'k layer =
  bound :: "'k list"
  anims :: "'k anim list"

definition enterKeys :: "'k list \<Rightarrow> 'k list \<Rightarrow> 'k list" where
  "enterKeys present ks = filter (\<lambda>k. k \<notin> set present) ks"


definition exitKeys :: "'k list \<Rightarrow> 'k list \<Rightarrow> 'k list" where
  "exitKeys present ks = filter (\<lambda>k. k \<notin> set ks) present"

text \<open>The tracking Maps hold the element created for a key.\<close>

datatype 'k elem = Elem 'k




subsection \<open>NodeManager.update\<close>

text \<open>
  \<open>this.isUpdating\<close>, the Map \<open>this.nodeElements\<close>, the selection \<open>this.nodes\<close> (by
  key, null before \<open>create\<close> and after \<open>destroy\<close>) and the \<open>g.node\<close> elements of the
  container.
\<close>

record NodeManager =
  nm_isUpdating :: bool
  nodeElements :: "nat \<rightharpoonup> nat elem"
  nm_nodes :: "nat list option"
  nm_layer :: "nat layer"



subsection \<open>PathManager.update\<close>

text \<open>
  \<open>this.isUpdating\<close>, the Map \<open>this.pathElements\<close>, the selection \<open>this.links\<close> and the
  \<open>path.link\<close> elements of the container.
\<close>

record PathManager =
  pm_isUpdating :: bool
  pathElements :: "(nat \<times> nat) \<rightharpoonup> (nat \<times> nat) elem"
  pm_links :: "(nat \<times> nat) list option"
  pm_layer :: "(nat \<times> nat) layer"




subsection \<open>OuterElementManager.update\<close>

text \<open>
  \<open>this.isUpdating\<close>, the two Maps, the depth-2 nodes that \<open>update\<close> passes from one
  step to the next, the selections \<open>this.indicators\<close> and \<open>this.labels\<close>, and the
  indicator groups and label containers of the container.
\<close>

record OuterElementManager =
  om_isUpdating :: bool
  indicatorElements :: "nat \<rightharpoonup> nat elem"
  labelElements :: "nat \<rightharpoonup> nat elem"
  om_outerNodes :: "nat list"
  om_indicatorSel :: "nat list option"
  om_labelSel :: "nat list option"
  om_indicators :: "nat layer"
  om_labels :: "nat layer"





subsection \<open>Two trees and three idle managers\<close>



definition idleNodes :: NodeManager where
  "idleNodes =
     \<lparr>nm_isUpdating = False, nodeElements = [1 \<mapsto> Elem 1, 2 \<mapsto> Elem 2],
      nm_nodes = Some [1, 2], nm_layer = \<lparr>bound = [1, 2], anims = []\<rparr>\<rparr>"

definition idlePaths :: PathManager where
  "idlePaths =
     \<lparr>pm_isUpdating = False, pathElements = [(1, 2) \<mapsto> Elem (1, 2)],
      pm_links = Some [(1, 2)], pm_layer = \<lparr>bound = [(1, 2)], anims = []\<rparr>\<rparr>"

definition idleOuter :: OuterElementManager where
  "idleOuter =
     \<lparr>om_isUpdating = False, indicatorElements = Map.empty, labelElements = Map.empty,
      om_outerNodes = [], om_indicatorSel = Some [], om_labelSel = Some [],
      om_indicators = \<lparr>bound = [], anims = []\<rparr>,
      om_labels = \<lparr>bound = [], anims = []\<rparr>\<rparr>"

section \<open>Teardown\<close>

subsection \<open>The destroy methods of the managers\<close>

text \<open>
  \<open>selection.remove()\<close> takes the elements of the selection out of the container.
\<close>

definition removeFrom :: "'k list option \<Rightarrow> 'k layer \<Rightarrow> 'k layer" where
  "removeFrom sel l =
     (case sel of None \<Rightarrow> l | Some ks \<Rightarrow> l\<lparr>bound := filter (\<lambda>k. k \<notin> set ks) (bound l)\<rparr>)"

text \<open>\<^verbatim>\<open>StateManager.destroy()\<close>: the listeners are cleared and \<open>this.state\<close> becomes null.\<close>

definition StateManager_destroy :: "StateManager \<Rightarrow> StateManager" where
  "StateManager_destroy m = m\<lparr>state := None\<rparr>"

text \<open>
  \<^verbatim>\<open>NodeManager.destroy()\<close> removes the nodes and clears \<open>this.nodes\<close> and
  \<open>activeTransitions\<close>; it writes neither \<open>nodeElements\<close> nor \<open>isUpdating\<close>.
\<close>

definition NodeManager_destroy :: "NodeManager \<Rightarrow> NodeManager" where
  "NodeManager_destroy m =
     m\<lparr>nm_layer := removeFrom (nm_nodes m) (nm_layer m), nm_nodes := None\<rparr>"

definition PathManager_destroy :: "PathManager \<Rightarrow> PathManager" where
  "PathManager_destroy m =
     m\<lparr>pm_layer := removeFrom (pm_links m) (pm_layer m), pathElements := Map.empty,
       pm_links := None, pm_isUpdating := False\<rparr>"

definition OuterElementManager_destroy :: "OuterElementManager \<Rightarrow> OuterElementManager" where
  "OuterElementManager_destroy m =
     m\<lparr>om_indicators := removeFrom (om_indicatorSel m) (om_indicators m),
       om_labels := removeFrom (om_labelSel m) (om_labels m),
       indicatorElements := Map.empty, labelElements := Map.empty,
       om_isUpdating := False, om_indicatorSel := None, om_labelSel := None\<rparr>"

subsection \<open>CircularNavManager.destroy\<close>

text \<open>
  The main controller holds a reference to each manager; \<open>destroy\<close> sets those to null
  that it lists under "Clear all references" (\<open>state\<close>, \<open>display\<close>, \<open>cache\<close>, \<open>viz\<close>,
  \<open>settings\<close>, \<open>controls\<close>, with \<open>config\<close> and \<open>_pendingOperations\<close>) and leaves \<open>nodes\<close>,
  \<open>paths\<close>, \<open>outer\<close> and \<open>zoom\<close>.  The collaborators outside the state store and the
  reconcilers are kept as present or null only.  \<open>cn_events\<close> are the events dispatched on
  the container.
\<close>

record CircularNavManager =
  cn_state :: "StateManager option"
  cn_display :: "unit option"
  cn_cache :: "unit option"
  cn_viz :: "unit option"
  cn_settings :: "unit option"
  cn_controls :: "unit option"
  cn_config :: "unit option"
  cn_pendingOperations :: "unit option"
  cn_nodes :: NodeManager
  cn_paths :: PathManager
  cn_outer :: OuterElementManager
  cn_events :: "string list"

text \<open>
  Emptying the container (\<open>viz.destroy()\<close> removes the svg, then every child of the
  container is removed) takes all elements out of it.
\<close>

definition cleanDOM :: "CircularNavManager \<Rightarrow> CircularNavManager" where
  "cleanDOM m =
     m\<lparr>cn_nodes := (cn_nodes m)\<lparr>nm_layer := (nm_layer (cn_nodes m))\<lparr>bound := []\<rparr>\<rparr>,
       cn_paths := (cn_paths m)\<lparr>pm_layer := (pm_layer (cn_paths m))\<lparr>bound := []\<rparr>\<rparr>,
       cn_outer := (cn_outer m)\<lparr>om_indicators := (om_indicators (cn_outer m))\<lparr>bound := []\<rparr>,
                                 om_labels := (om_labels (cn_outer m))\<lparr>bound := []\<rparr>\<rparr>\<rparr>"

text \<open>
  \<^verbatim>\<open>destroy()\<close>.  Its \<open>catch\<close> block logs and rethrows, so an exception leaves the method
  with what was done so far.  \<open>this.state.updateState\<close> on a null \<open>this.state\<close> is a
  TypeError; \<open>removeEventListeners\<close> ends with \<open>this.state.removeAllListeners()\<close>.  The
  calls \<open>cache.clear\<close>, \<open>display.destroy\<close>, \<open>viz.destroy\<close>, \<open>settings.destroy\<close> and
  \<open>controls.destroy\<close> are taken to succeed.  The destroyed state manager is no longer
  referenced when the method returns.
\<close>

definition destroy :: "env \<Rightarrow> CircularNavManager \<Rightarrow> (exn + unit) \<times> CircularNavManager" where
  "destroy E m =
     (case cn_state m of
        None \<Rightarrow> (Inl (TypeError ''this.state is null''), m)
      | Some sm \<Rightarrow>
          (case updateState E [SetIsDestroying True] sm of
             (Inl e, sm1) \<Rightarrow> (Inl e, m\<lparr>cn_state := Some sm1\<rparr>)
           | (Inr b, sm1) \<Rightarrow>
               (case removeAllListeners E of
                  Some e \<Rightarrow> (Inl e, m\<lparr>cn_state := Some sm1\<rparr>)
                | None \<Rightarrow>
                    (Inr (),
                     (cleanDOM (m\<lparr>cn_state := Some (StateManager_destroy sm1)\<rparr>))
                       \<lparr>cn_pendingOperations := None, cn_config := None, cn_state := None,
                         cn_display := None, cn_cache := None, cn_viz := None,
                         cn_settings := None, cn_controls := None,
                         cn_events := cn_events m @ [''destroyed'']\<rparr>))))"

text \<open>An initialised instance whose managers track the elements of the idle managers above.\<close>

definition instance0 :: CircularNavManager where
  "instance0 =
     \<lparr>cn_state = Some newStateManager, cn_display = Some (), cn_cache = Some (),
      cn_viz = Some (), cn_settings = Some (), cn_controls = Some (), cn_config = Some (),
      cn_pendingOperations = Some (), cn_nodes = idleNodes, cn_paths = idlePaths,
      cn_outer = idleOuter, cn_events = []\<rparr>"

section \<open>Properties of the selection predicates\<close>

lemma exampleTree_wf: "wf_node exampleTree n"
  by (simp add: wf_node_def exampleTree_def)

lemma path_depth1:
  assumes "wf_node h sel" "depth (h sel) = 1"
  shows "\<exists>p. parent (h sel) = Some p \<and> spec_activePath h sel = [\<lparr>source = p, target = sel\<rparr>]"
  using assms by (auto simp: wf_node_def spec_activePath_def split: option.splits)

lemma path_depth2:
  assumes "wf_node h sel" "depth (h sel) = 2" "\<forall>n. wf_node h n"
  shows "\<exists>p g. parent (h sel) = Some p \<and> parent (h p) = Some g \<and>
           spec_activePath h sel = [\<lparr>source = g, target = p\<rparr>, \<lparr>source = p, target = sel\<rparr>]"
proof -
  from assms(1,2) obtain p where p: "parent (h sel) = Some p" "depth (h p) = 1"
    by (auto simp: wf_node_def split: option.splits)
  from assms(3) have "wf_node h p" by blast
  with p(2) obtain g where g: "parent (h p) = Some g"
    by (auto simp: wf_node_def split: option.splits)
  have "edgesUp h 2 sel = [\<lparr>source = g, target = p\<rparr>, \<lparr>source = p, target = sel\<rparr>]"
    using p g by (simp add: numeral_2_eq_2)
  then show ?thesis using p g assms(2) by (simp add: spec_activePath_def)
qed

text \<open>
  C10.  nodeA node is never classified both active and sibling: for every store of nodes in
  which the candidate is not its own parent, every candidate and every selection
  (including none), \<open>isActiveNode\<close> and \<open>isSiblingNode\<close> are not both true.
\<close>

theorem active_sibling_node_exclusive:
  assumes "parent (h n) \<noteq> Some n"
  shows "\<not> (isActiveNode h n s \<and> isSiblingNode h n s)"
proof (cases s)
  case None
  then show ?thesis by simp
next
  case (Some sel)
  show ?thesis
  proof
    assume both: "isActiveNode h n s \<and> isSiblingNode h n s"
    then have sib: "depth (h n) \<noteq> 0" "parent (h n) = parent (h sel)" "n \<noteq> sel"
      using Some by (auto split: if_splits)
    from both Some sib have "Some n = parent (h sel)" by auto
    with sib(2) assms show False by simp
  qed
qed

theorem active_sibling_node_exclusive_witness:
  "parent (exampleTree nodeA) \<noteq> Some nodeA \<and>
   \<not> (isActiveNode exampleTree nodeA (Some nodeD) \<and> isSiblingNode exampleTree nodeA (Some nodeD)) \<and>
   isActiveNode exampleTree nodeA (Some nodeD) \<and>
   isSiblingNode exampleTree nodeC (Some nodeD) \<and> \<not> isActiveNode exampleTree nodeC (Some nodeD)"
proof -
  have h: "parent (exampleTree nodeA) \<noteq> Some nodeA"
    by (simp add: exampleTree_def nodeA_def)
  show ?thesis
    using h active_sibling_node_exclusive [of exampleTree nodeA "Some nodeD"]
    by (simp add: exampleTree_def nodeA_def nodeC_def nodeD_def)
qed

lemma link_eq_iff: "(l = \<lparr>source = a, target = b\<rparr>) = (source l = a \<and> target l = b)"
  by (cases l) simp

text \<open>
  C6 as stated would make a link active exactly when it lies on the path from the root to
  the selection.  In the specification's own example tree, with nodeD selected, the link
  from A to C is active although the path is root to A, A to D (it is classified sibling as
  well); with
  the root selected every link is active although the path has no edge.
\<close>

theorem active_path_iff_counterexample:
  "isActivePath exampleTree (Some \<lparr>source = nodeA, target = nodeC\<rparr>) (Some nodeD) \<and>
   \<lparr>source = nodeA, target = nodeC\<rparr> \<notin> set (spec_activePath exampleTree nodeD) \<and>
   isSiblingPath exampleTree (Some \<lparr>source = nodeA, target = nodeC\<rparr>) (Some nodeD) \<and>
   isActivePath exampleTree (Some \<lparr>source = nodeA, target = nodeC\<rparr>) (Some nodeR) \<and>
   spec_activePath exampleTree nodeR = []"
  by (simp add: exampleTree_def spec_activePath_def grandparent_def
        nodeA_def nodeC_def nodeD_def nodeR_def numeral_2_eq_2)

text \<open>
  C6, amended.  In a well-formed tree, for a selection of depth at most 2 and a link that
  is a parent-to-child edge of the tree: the link is
  active exactly when it lies on the path from the root to the selection, or the root is
  selected, or the selection has depth 1 and the link starts at it, or the selection has
  depth 2 and the link starts at its parent.  nodeA link is sibling exactly when the selection
  is not the root and the link starts at the selection's parent and ends elsewhere, or the
  selection has depth 2 and the link ends at another depth-2 node without starting at the
  root.  Both predicates are total and false when nothing is selected or no link is given.
\<close>

theorem path_classification:
  assumes "\<forall>n. wf_node h n" "depth (h sel) \<le> 2"
    and "parent (h (target l)) = Some (source l)"
  shows "(isActivePath h (Some l) (Some sel) \<longleftrightarrow>
            l \<in> set (spec_activePath h sel) \<or> depth (h sel) = 0 \<or>
            (depth (h sel) = 1 \<and> source l = sel) \<or>
            (depth (h sel) = 2 \<and> Some (source l) = parent (h sel))) \<and>
         (isSiblingPath h (Some l) (Some sel) \<longleftrightarrow>
            (depth (h sel) \<noteq> 0 \<and> Some (source l) = parent (h sel) \<and> target l \<noteq> sel) \<or>
            (depth (h sel) = 2 \<and> Some (source l) \<noteq> grandparent h sel \<and>
             depth (h (target l)) = 2 \<and> target l \<noteq> sel)) \<and>
         \<not> isActivePath h lo None \<and> \<not> isSiblingPath h lo None \<and>
         \<not> isActivePath h None so \<and> \<not> isSiblingPath h None so"
proof -
  have wf: "wf_node h sel" using assms(1) by blast
  have nul: "\<not> isActivePath h lo None \<and> \<not> isSiblingPath h lo None \<and>
             \<not> isActivePath h None so \<and> \<not> isSiblingPath h None so"
    by (cases lo) simp_all
  consider "depth (h sel) = 0" | "depth (h sel) = 1" | "depth (h sel) = 2"
    using assms(2) by linarith
  then have "(isActivePath h (Some l) (Some sel) \<longleftrightarrow>
            l \<in> set (spec_activePath h sel) \<or> depth (h sel) = 0 \<or>
            (depth (h sel) = 1 \<and> source l = sel) \<or>
            (depth (h sel) = 2 \<and> Some (source l) = parent (h sel))) \<and>
         (isSiblingPath h (Some l) (Some sel) \<longleftrightarrow>
            (depth (h sel) \<noteq> 0 \<and> Some (source l) = parent (h sel) \<and> target l \<noteq> sel) \<or>
            (depth (h sel) = 2 \<and> Some (source l) \<noteq> grandparent h sel \<and>
             depth (h (target l)) = 2 \<and> target l \<noteq> sel))"
  proof cases
    case 1
    then show ?thesis by simp
  next
    case 2
    from path_depth1 [OF wf 2] obtain p where
      "parent (h sel) = Some p" "spec_activePath h sel = [\<lparr>source = p, target = sel\<rparr>]"
      by blast
    with 2 show ?thesis by (auto simp: link_eq_iff)
  next
    case 3
    from path_depth2 [OF wf 3 assms(1)] obtain p g where
      "parent (h sel) = Some p" "parent (h p) = Some g"
      "spec_activePath h sel = [\<lparr>source = g, target = p\<rparr>, \<lparr>source = p, target = sel\<rparr>]"
      by blast
    with 3 assms(3) show ?thesis by (auto simp: link_eq_iff grandparent_def)
  qed
  with nul show ?thesis by blast
qed

theorem path_classification_witness:
  "(\<forall>n. wf_node exampleTree n) \<and> depth (exampleTree nodeD) \<le> 2 \<and>
   parent (exampleTree (target \<lparr>source = nodeA, target = nodeD\<rparr>)) =
     Some (source \<lparr>source = nodeA, target = nodeD\<rparr>) \<and>
   isActivePath exampleTree (Some \<lparr>source = nodeR, target = nodeA\<rparr>) (Some nodeD) \<and>
   isActivePath exampleTree (Some \<lparr>source = nodeA, target = nodeD\<rparr>) (Some nodeD) \<and>
   \<lparr>source = nodeA, target = nodeD\<rparr> \<in> set (spec_activePath exampleTree nodeD) \<and>
   isSiblingPath exampleTree (Some \<lparr>source = nodeA, target = nodeC\<rparr>) (Some nodeD) \<and>
   \<not> isActivePath exampleTree (Some \<lparr>source = nodeR, target = nodeB\<rparr>) (Some nodeD) \<and>
   \<not> isActivePath exampleTree (Some \<lparr>source = nodeR, target = nodeA\<rparr>) None"
proof -
  have wf: "\<forall>n. wf_node exampleTree n" using exampleTree_wf by blast
  have d: "depth (exampleTree nodeD) \<le> 2" by (simp add: exampleTree_def nodeD_def)
  have e: "parent (exampleTree (target \<lparr>source = nodeA, target = nodeD\<rparr>)) =
     Some (source \<lparr>source = nodeA, target = nodeD\<rparr>)"
    by (simp add: exampleTree_def nodeA_def nodeD_def)
  show ?thesis
    using wf d e
      path_classification [of exampleTree nodeD "\<lparr>source = nodeA, target = nodeD\<rparr>"
        "Some \<lparr>source = nodeR, target = nodeA\<rparr>" None]
    by (simp add: exampleTree_def spec_activePath_def grandparent_def
          nodeA_def nodeB_def nodeC_def nodeD_def nodeR_def numeral_2_eq_2)
qed

section \<open>Properties of profile selection\<close>

text \<open>
  C7 as stated: the profile follows the breakpoints applied to the container's size, and
  an 800 by 600 container with breakpoints 480 and 1024 gives the desktop profile.  With
  those breakpoints a width of 800 is below \<open>medium\<close>, so the profile is the tablet one;
  and the width that is compared is the window's, so an 800 by 600 container in a window
  400 wide gets the mobile profile.
\<close>

theorem profile_800_counterexample:
  "calculateDimensions_profile \<lparr>small = 480, medium = 1024\<rparr>
     \<lparr>innerWidth = 800, innerHeight = 600\<rparr> \<lparr>rect_width = 800, rect_height = 600\<rparr> = Tablet \<and>
   calculateDimensions_profile \<lparr>small = 480, medium = 1024\<rparr>
     \<lparr>innerWidth = 800, innerHeight = 600\<rparr> \<lparr>rect_width = 800, rect_height = 600\<rparr> \<noteq> Desktop \<and>
   calculateDimensions_profile \<lparr>small = 480, medium = 1024\<rparr>
     \<lparr>innerWidth = 400, innerHeight = 600\<rparr> \<lparr>rect_width = 800, rect_height = 600\<rparr> = Mobile"
  by (simp add: calculateDimensions_profile_def getActiveProfile_def)

text \<open>
  C7, amended.  The profile used by \<open>calculateDimensions\<close> follows the breakpoints applied
  to the window's inner width, whatever the container's box: mobile exactly below
  \<open>small\<close>, tablet exactly from \<open>small\<close> up to below \<open>medium\<close>, desktop exactly when the
  width is below neither; with breakpoints 480 and 1024 a window 800 wide gives the tablet
  profile and one 1024 wide the desktop profile.
\<close>

theorem profile_by_window_width:
  "calculateDimensions_profile bp win box1 = calculateDimensions_profile bp win box2 \<and>
   (calculateDimensions_profile bp win box1 = Mobile \<longleftrightarrow> innerWidth win < small bp) \<and>
   (calculateDimensions_profile bp win box1 = Tablet \<longleftrightarrow>
      \<not> innerWidth win < small bp \<and> innerWidth win < medium bp) \<and>
   (calculateDimensions_profile bp win box1 = Desktop \<longleftrightarrow>
      \<not> innerWidth win < small bp \<and> \<not> innerWidth win < medium bp) \<and>
   getActiveProfile \<lparr>small = 480, medium = 1024\<rparr> 800 = Tablet \<and>
   getActiveProfile \<lparr>small = 480, medium = 1024\<rparr> 1024 = Desktop"
  by (simp add: calculateDimensions_profile_def getActiveProfile_def)

section \<open>Properties of the label layout\<close>

lemma split_sp_nonempty [simp]: "split_sp s \<noteq> []"
  by (induction s) (auto split: list.splits)

lemma join_sp_Cons: "ws \<noteq> [] \<Longrightarrow> join_sp (w # ws) = w @ CHR '' '' # join_sp ws"
  by (cases ws) simp_all

lemma join_split [simp]: "join_sp (split_sp s) = s"
proof (induction s)
  case Nil
  then show ?case by simp
next
  case (Cons c cs)
  show ?case
  proof (cases "c = CHR '' ''")
    case True
    then show ?thesis using Cons by (simp add: join_sp_Cons)
  next
    case False
    obtain w ws where sp: "split_sp cs = w # ws"
      using split_sp_nonempty [of cs] by (cases "split_sp cs") auto
    have "join_sp ((c # w) # ws) = c # join_sp (w # ws)"
      by (cases ws) simp_all
    with False sp Cons show ?thesis by simp
  qed
qed

lemma split_no_space: "w \<in> set (split_sp s) \<Longrightarrow> CHR '' '' \<notin> set w"
proof (induction s arbitrary: w)
  case Nil
  then show ?case by simp
next
  case (Cons c cs)
  then show ?case
    by (cases "split_sp cs") (auto split: if_splits)
qed

lemma split_word [simp]: "CHR '' '' \<notin> set w \<Longrightarrow> split_sp w = [w]"
  by (induction w) auto

lemma split_append: "CHR '' '' \<notin> set w \<Longrightarrow> split_sp (w @ CHR '' '' # s) = w # split_sp s"
  by (induction w) auto

lemma split_join: "ws \<noteq> [] \<Longrightarrow> \<forall>w \<in> set ws. CHR '' '' \<notin> set w \<Longrightarrow> split_sp (join_sp ws) = ws"
proof (induction ws rule: join_sp.induct)
  case 1
  then show ?case by simp
next
  case (2 w)
  then show ?case by simp
next
  case (3 w v ws)
  then show ?case by (simp add: split_append)
qed

lemma join_append:
  "xs \<noteq> [] \<Longrightarrow> ys \<noteq> [] \<Longrightarrow> join_sp (xs @ ys) = join_sp xs @ CHR '' '' # join_sp ys"
proof (induction xs)
  case Nil
  then show ?case by simp
next
  case (Cons x xs)
  show ?case
  proof (cases "xs = []")
    case True
    then show ?thesis using Cons.prems by (simp add: join_sp_Cons)
  next
    case False
    then show ?thesis using Cons by (simp add: join_sp_Cons)
  qed
qed

lemma split_take_drop:
  assumes "0 < m" "m < length (split_sp s)"
  shows "split_sp (join_sp (take m (split_sp s))) = take m (split_sp s)"
    and "split_sp (join_sp (drop m (split_sp s))) = drop m (split_sp s)"
    and "join_sp (take m (split_sp s)) @ CHR '' '' # join_sp (drop m (split_sp s)) = s"
proof -
  have t: "take m (split_sp s) \<noteq> []" and d: "drop m (split_sp s) \<noteq> []"
    using assms by auto
  have nt: "\<forall>w \<in> set (take m (split_sp s)). CHR '' '' \<notin> set w"
    using split_no_space in_set_takeD by metis
  have nd: "\<forall>w \<in> set (drop m (split_sp s)). CHR '' '' \<notin> set w"
    using split_no_space in_set_dropD by metis
  show "split_sp (join_sp (take m (split_sp s))) = take m (split_sp s)"
    using split_join [OF t nt] .
  show "split_sp (join_sp (drop m (split_sp s))) = drop m (split_sp s)"
    using split_join [OF d nd] .
  have "join_sp (take m (split_sp s) @ drop m (split_sp s)) = s" by simp
  then show "join_sp (take m (split_sp s)) @ CHR '' '' # join_sp (drop m (split_sp s)) = s"
    using join_append [OF t d] by simp
qed

text \<open>
  C9.  A label whose text has more than one word and is longer than the long-text
  threshold or has more than two words is laid out on two lines, split at the median
  word boundary \<open>ceil (wordCount / 2)\<close>, one word earlier when the first half is more
  than 1.5 times as long as the second; the words of the two lines, in order, are the
  words of the text (and when the first line is not empty, the lines joined by a space
  are the text).  Every other text stays on a single line.
\<close>

theorem label_layout_split:
  "(let ws = split_sp text; n = length ws; mid = (n + 1) div 2;
        m = (if 3 * length (join_sp (drop mid ws)) < 2 * length (join_sp (take mid ws))
             then mid - 1 else mid);
        firstLine = join_sp (take m ws); secondLine = join_sp (drop m ws)
    in calculateLabelLayout longText text =
         (if 1 < n \<and> (longText < int (length text) \<or> 2 < n)
          then Double firstLine secondLine else Single text) \<and>
       n \<le> 2 * mid \<and> 2 * mid \<le> n + 1 \<and>
       take m ws @ drop m ws = ws \<and>
       (1 < n \<longrightarrow> m < n \<and> split_sp secondLine = drop m ws) \<and>
       (1 < n \<and> 0 < m \<longrightarrow>
          split_sp firstLine = take m ws \<and>
          split_sp firstLine @ split_sp secondLine = ws \<and>
          firstLine @ CHR '' '' # secondLine = text))"
proof -
  define ws where "ws = split_sp text"
  define n where "n = length ws"
  define mid where "mid = (n + 1) div 2"
  define m where "m = (if 3 * length (join_sp (drop mid ws)) < 2 * length (join_sp (take mid ws))
             then mid - 1 else mid)"
  have lay: "calculateLabelLayout longText text =
         (if 1 < n \<and> (longText < int (length text) \<or> 2 < n)
          then Double (join_sp (take m ws)) (join_sp (drop m ws)) else Single text)"
    unfolding calculateLabelLayout_def Let_def ws_def n_def mid_def m_def by simp
  have mid: "n \<le> 2 * mid" "2 * mid \<le> n + 1" unfolding mid_def by presburger+
  have mle: "m \<le> mid" unfolding m_def by simp
  have lt: "m < n" if "1 < n" using that mle mid by linarith
  have sec: "split_sp (join_sp (drop m ws)) = drop m ws" if "1 < n"
  proof -
    have d: "drop m ws \<noteq> []" using lt [OF that] by (simp add: n_def)
    have nd: "\<forall>w \<in> set (drop m ws). CHR '' '' \<notin> set w"
      unfolding ws_def using split_no_space in_set_dropD by metis
    show ?thesis using split_join [OF d nd] .
  qed
  have pos: "split_sp (join_sp (take m ws)) = take m ws \<and>
          split_sp (join_sp (take m ws)) @ split_sp (join_sp (drop m ws)) = ws \<and>
          join_sp (take m ws) @ CHR '' '' # join_sp (drop m ws) = text"
    if "1 < n" "0 < m"
  proof -
    have "m < length (split_sp text)" using lt [OF that(1)] by (simp add: n_def ws_def)
    from split_take_drop [OF that(2) this] show ?thesis by (simp add: ws_def)
  qed
  show ?thesis
    unfolding Let_def
    using lay mid lt sec pos
    unfolding ws_def n_def mid_def m_def by simp
qed

theorem label_layout_split_witness:
  "calculateLabelLayout 15 ''alpha beta gamma'' = Double ''alpha'' ''beta gamma'' \<and>
   calculateLabelLayout 15 ''alphabet soup'' = Single ''alphabet soup'' \<and>
   split_sp ''alpha'' @ split_sp ''beta gamma'' = split_sp ''alpha beta gamma''"
  using label_layout_split [of "''alpha beta gamma''" 15]
    label_layout_split [of "''alphabet soup''" 15]
  by (simp add: Let_def)

section \<open>Properties of the StateManager\<close>

lemmas ctl = ret_def throw_def bnd_def tryCatch_def tryFinally_def callOut_def gets_def
  modify_def dateNow_def emit_def

lemmas ops = startTransition_def finalizeTransition_def endTransition_def
  handleTransitionError_def handleStateChange_def updateState_try_def updateState_with_def
  updateState_inner_def handleSelectionChange_def handleSelectionChange_with_def
  selectionEffects_def preloadIfNeeded_def hostHandleError_def
  updateState_def clearTimeout_def setTimeout_def minTransitionTime_def merge_def
  objEntries_def

subsection \<open>Reasoning about methods\<close>

lemma keepsD: "keeps R f \<Longrightarrow> f m = (r, m') \<Longrightarrow> R m m'"
  by (auto simp: keeps_def dest: spec [of _ m])

lemma keeps_ret: "reflTrans R \<Longrightarrow> keeps R (ret x)"
  by (simp add: keeps_def reflTrans_def ret_def)

lemma keeps_throw: "reflTrans R \<Longrightarrow> keeps R (throw e)"
  by (simp add: keeps_def reflTrans_def throw_def)

lemma keeps_callOut: "reflTrans R \<Longrightarrow> keeps R (callOut r)"
  by (simp add: keeps_def reflTrans_def callOut_def split: option.splits)

lemma keeps_gets: "reflTrans R \<Longrightarrow> keeps R (gets g)"
  by (simp add: keeps_def reflTrans_def gets_def split: option.splits)

lemma keeps_bnd:
  assumes "reflTrans R" "keeps R f" "\<And>x. keeps R (g x)"
  shows "keeps R (bnd f g)"
proof -
  have "R m (snd (bnd f g m))" for m
  proof (cases "f m")
    case (Pair r m1)
    have 1: "R m m1" using keepsD [OF assms(2) Pair] .
    show ?thesis
    proof (cases r)
      case (Inl e)
      then show ?thesis using Pair 1 by (simp add: bnd_def)
    next
      case (Inr x)
      have "R m1 (snd (g x m1))" using assms(3) by (simp add: keeps_def)
      with 1 assms(1) have "R m (snd (g x m1))" unfolding reflTrans_def by blast
      then show ?thesis using Pair Inr by (simp add: bnd_def)
    qed
  qed
  then show ?thesis by (simp add: keeps_def)
qed

lemma keeps_tryCatch:
  assumes "reflTrans R" "keeps R f" "\<And>e. keeps R (h e)"
  shows "keeps R (tryCatch f h)"
proof -
  have "R m (snd (tryCatch f h m))" for m
  proof (cases "f m")
    case (Pair r m1)
    have 1: "R m m1" using keepsD [OF assms(2) Pair] .
    show ?thesis
    proof (cases r)
      case (Inr x)
      then show ?thesis using Pair 1 by (simp add: tryCatch_def)
    next
      case (Inl e)
      have "R m1 (snd (h e m1))" using assms(3) by (simp add: keeps_def)
      with 1 assms(1) have "R m (snd (h e m1))" unfolding reflTrans_def by blast
      then show ?thesis using Pair Inl by (simp add: tryCatch_def)
    qed
  qed
  then show ?thesis by (simp add: keeps_def)
qed

lemma keeps_tryFinally:
  assumes "reflTrans R" "keeps R f" "keeps R g"
  shows "keeps R (tryFinally f g)"
proof -
  have "R m (snd (tryFinally f g m))" for m
  proof (cases "f m")
    case (Pair r m1)
    have 1: "R m m1" using keepsD [OF assms(2) Pair] .
    obtain r2 m2 where g: "g m1 = (r2, m2)" by (cases "g m1")
    have "R m1 m2" using keepsD [OF assms(3) g] .
    with 1 assms(1) have "R m m2" unfolding reflTrans_def by blast
    then show ?thesis using Pair g by (cases r2) (simp_all add: tryFinally_def)
  qed
  then show ?thesis by (simp add: keeps_def)
qed

lemma keeps_if: "keeps R f \<Longrightarrow> keeps R g \<Longrightarrow> keeps R (if c then f else g)"
  by simp

lemma keeps_step:
  assumes "reflTrans R" "\<And>m. R m (f m)" "keeps R g"
  shows "keeps R (\<lambda>m. g (f m))"
  using assms unfolding keeps_def reflTrans_def by blast

lemma keeps_case_option:
  "keeps R f \<Longrightarrow> (\<And>x. keeps R (g x)) \<Longrightarrow> keeps R (case v of None \<Rightarrow> f | Some x \<Rightarrow> g x)"
  by (cases v) simp_all

lemma keepsOkD: "keepsOk R f \<Longrightarrow> f m = (Inr x, m') \<Longrightarrow> R m m'"
  by (auto simp: keepsOk_def)

lemma keeps_keepsOk: "keeps R f \<Longrightarrow> keepsOk R f"
  unfolding keepsOk_def using keepsD by blast

lemma bnd_Inr:
  assumes "bnd f g m = (Inr y, m')"
  obtains x m1 where "f m = (Inr x, m1)" "g x m1 = (Inr y, m')"
  using assms by (auto simp: bnd_def split: prod.splits sum.splits)

lemma bnd_Inl:
  assumes "bnd f g m = (Inl e, m')"
  obtains "f m = (Inl e, m')" | x m1 where "f m = (Inr x, m1)" "g x m1 = (Inl e, m')"
  using assms by (auto simp: bnd_def split: prod.splits sum.splits)

lemma keepsOk_bnd:
  assumes "reflTrans R" "keepsOk R f" "\<And>x. keepsOk R (g x)"
  shows "keepsOk R (bnd f g)"
  unfolding keepsOk_def
proof (intro allI impI)
  fix m y m' assume "bnd f g m = (Inr y, m')"
  then obtain x m1 where 1: "f m = (Inr x, m1)" and 2: "g x m1 = (Inr y, m')"
    by (rule bnd_Inr)
  from keepsOkD [OF assms(2) 1] keepsOkD [OF assms(3) 2] assms(1)
  show "R m m'" unfolding reflTrans_def by blast
qed

lemma keepsOk_tryFinally:
  assumes "reflTrans R" "keepsOk R f" "keepsOk R g"
  shows "keepsOk R (tryFinally f g)"
  unfolding keepsOk_def
proof (intro allI impI)
  fix m y m' assume a: "tryFinally f g m = (Inr y, m')"
  obtain r m1 where f: "f m = (r, m1)" by (cases "f m")
  obtain r2 m2 where g: "g m1 = (r2, m2)" by (cases "g m1")
  from a f g obtain z where "r2 = Inr z" "r = Inr y" "m2 = m'"
    by (cases r2) (auto simp: tryFinally_def)
  with f g keepsOkD [OF assms(2)] keepsOkD [OF assms(3)] assms(1)
  show "R m m'" unfolding reflTrans_def by blast
qed

lemma keepsOk_tryCatch:
  assumes "reflTrans R" "keeps R f" "\<And>e. keepsOk R (h e)"
  shows "keepsOk R (tryCatch f h)"
  unfolding keepsOk_def
proof (intro allI impI)
  fix m y m' assume a: "tryCatch f h m = (Inr y, m')"
  obtain r m1 where f: "f m = (r, m1)" by (cases "f m")
  have 1: "R m m1" using keepsD [OF assms(2) f] .
  show "R m m'"
  proof (cases r)
    case (Inr x)
    with a f 1 show ?thesis by (simp add: tryCatch_def)
  next
    case (Inl e)
    with a f have "h e m1 = (Inr y, m')" by (simp add: tryCatch_def)
    from keepsOkD [OF assms(3) this] 1 assms(1) show ?thesis
      unfolding reflTrans_def by blast
  qed
qed

lemma keepsOk_if: "keepsOk R f \<Longrightarrow> keepsOk R g \<Longrightarrow> keepsOk R (if c then f else g)"
  by simp

subsection \<open>What a method leaves alone\<close>

lemma frame_refl: "frame K P C m m"
  by (simp add: frame_def split: option.splits)

lemma frame_trans:
  assumes "frame K P C a b" "frame K P C b c"
  shows "frame K P C a c"
proof -
  have st: "(case state a of
         None \<Rightarrow> state c = None
       | Some s \<Rightarrow> (\<exists>s'. state c = Some s' \<and> (\<forall>k. k \<notin> K \<longrightarrow> get k s' = get k s)))"
    using assms by (cases "state a"; cases "state b") (auto simp: frame_def)
  from assms obtain n1 n2 where
    "emitted b = emitted a @ n1" "\<forall>ev \<in> set n1. P ev"
    "emitted c = emitted b @ n2" "\<forall>ev \<in> set n2. P ev"
    unfolding frame_def by blast
  then have lg: "emitted c = emitted a @ (n1 @ n2) \<and> (\<forall>ev \<in> set (n1 @ n2). P ev)"
    by auto
  have "C \<longrightarrow> preloads c = preloads a \<and> sets c = sets a \<and> hostErrors c = hostErrors a"
    using assms by (simp add: frame_def)
  with st lg show ?thesis unfolding frame_def by blast
qed

lemma frame_reflTrans: "reflTrans (frame K P C)"
  unfolding reflTrans_def using frame_refl frame_trans by blast

lemma frame_weaken:
  assumes "frame K P C m m'" "K \<subseteq> K'" "\<And>ev. P ev \<Longrightarrow> P' ev" "C' \<Longrightarrow> C"
  shows "frame K' P' C' m m'"
proof -
  have st: "(case state m of
         None \<Rightarrow> state m' = None
       | Some s \<Rightarrow> (\<exists>s'. state m' = Some s' \<and> (\<forall>k. k \<notin> K' \<longrightarrow> get k s' = get k s)))"
    using assms(1,2) by (cases "state m") (auto simp: frame_def)
  from assms(1) obtain n where "emitted m' = emitted m @ n" "\<forall>ev \<in> set n. P ev"
    unfolding frame_def by blast
  with assms(3) have lg: "\<exists>n. emitted m' = emitted m @ n \<and> (\<forall>ev \<in> set n. P' ev)" by blast
  have "C' \<longrightarrow> preloads m' = preloads m \<and> sets m' = sets m \<and> hostErrors m' = hostErrors m"
    using assms(1,4) by (simp add: frame_def)
  with st lg show ?thesis unfolding frame_def by blast
qed

lemma frame_modify:
  assumes "\<And>s k. k \<notin> K \<Longrightarrow> get k (f s) = get k s"
  shows "keeps (frame K P C) (modify f)"
  using assms by (simp add: keeps_def frame_def modify_def split: option.splits)

lemma frame_dateNow: "keeps (frame K P C) (dateNow E)"
  by (simp add: keeps_def frame_def dateNow_def Let_def split: option.splits)

lemma frame_emit: "P ev \<Longrightarrow> keeps (frame K P C) (emit E ev)"
  by (simp add: keeps_def frame_def emit_def callOut_def split: option.splits)

lemma frame_clearTimeout: "frame K P C m (clearTimeout h m)"
  by (simp add: frame_def clearTimeout_def split: option.splits)

lemma frame_setTimeout: "frame K P C m (snd (setTimeout d m))"
  by (simp add: frame_def setTimeout_def split: option.splits)

lemma frame_handle: "frame K P C m (m\<lparr>transitionTimeout := h\<rparr>)"
  by (simp add: frame_def split: option.splits)

lemmas frame_struct =
  keeps_bnd [OF frame_reflTrans] keeps_tryCatch [OF frame_reflTrans]
  keeps_tryFinally [OF frame_reflTrans] keeps_ret [OF frame_reflTrans]
  keeps_throw [OF frame_reflTrans] keeps_callOut [OF frame_reflTrans]
  keeps_gets [OF frame_reflTrans] keeps_if keeps_case_option frame_dateNow

lemma get_isTransitioning: "IsTransitioning \<in> K \<Longrightarrow> k \<notin> K \<Longrightarrow> get k (s\<lparr>isTransitioning := b\<rparr>) = get k s"
  by (cases k) auto

lemma get_lastUpdate: "LastUpdate \<in> K \<Longrightarrow> k \<notin> K \<Longrightarrow> get k (s\<lparr>lastUpdate := t\<rparr>) = get k s"
  by (cases k) auto

lemma get_previousNode: "PreviousNode \<in> K \<Longrightarrow> k \<notin> K \<Longrightarrow> get k (s\<lparr>previousNode := n\<rparr>) = get k s"
  by (cases k) auto

lemma get_error: "Error \<in> K \<Longrightarrow> k \<notin> K \<Longrightarrow> get k (s\<lparr>error := e\<rparr>) = get k s"
  by (cases k) auto

lemma get_isError: "IsError \<in> K \<Longrightarrow> k \<notin> K \<Longrightarrow> get k (s\<lparr>isError := b\<rparr>) = get k s"
  by (cases k) auto

lemmas get_frame = get_isTransitioning get_lastUpdate get_previousNode get_error get_isError

lemma get_assign: "get k (assign u s) = (if key u = k then newValue u else get k s)"
  by (cases u; cases k) simp_all

lemma get_merge_other: "k \<notin> key ` set p \<Longrightarrow> get k (merge p s) = get k s"
  unfolding merge_def by (induction p arbitrary: s) (auto simp: get_assign)

lemma frame_startTransition:
  assumes "IsTransitioning \<in> K" "P TransitionStart"
  shows "keeps (frame K P C) (startTransition E)"
proof -
  have "keeps (frame K P C)
          (bnd (modify (\<lambda>s. s\<lparr>isTransitioning := True\<rparr>)) (\<lambda>_. emit E TransitionStart))"
    using assms by (intro frame_struct frame_modify frame_emit) (auto intro: get_frame)
  then have k: "keeps (frame K P C)
          (\<lambda>m. bnd (modify (\<lambda>s. s\<lparr>isTransitioning := True\<rparr>)) (\<lambda>_. emit E TransitionStart)
                 (case transitionTimeout m of None \<Rightarrow> m | Some h \<Rightarrow> clearTimeout h m))"
  proof (rule keeps_step [OF frame_reflTrans, rotated])
    fix m
    show "frame K P C m (case transitionTimeout m of None \<Rightarrow> m | Some h \<Rightarrow> clearTimeout h m)"
      by (cases "transitionTimeout m") (simp_all add: frame_refl frame_clearTimeout)
  qed
  have "startTransition E =
          (\<lambda>m. bnd (modify (\<lambda>s. s\<lparr>isTransitioning := True\<rparr>)) (\<lambda>_. emit E TransitionStart)
                 (case transitionTimeout m of None \<Rightarrow> m | Some h \<Rightarrow> clearTimeout h m))"
    by (rule ext) (simp add: startTransition_def)
  with k show ?thesis by simp
qed

lemma frame_finalizeTransition:
  assumes "IsTransitioning \<in> K" "P TransitionEnd"
  shows "keeps (frame K P C) (finalizeTransition E)"
  unfolding finalizeTransition_def
proof (intro frame_struct frame_modify frame_emit)
  show "keeps (frame K P C) (\<lambda>m. ret () (m\<lparr>transitionTimeout := None\<rparr>))"
    using frame_handle by (simp add: keeps_def ret_def)
qed (use assms in \<open>auto intro: get_frame\<close>)

lemma frame_endTransition:
  assumes "IsTransitioning \<in> K" "P TransitionEnd"
  shows "keeps (frame K P C) (endTransition E)"
  unfolding endTransition_def Let_def
proof (intro frame_struct frame_finalizeTransition assms)
  fix t l
  show "keeps (frame K P C)
          (\<lambda>m. case setTimeout (minTransitionTime - (t - l)) m of
                 (h, m') \<Rightarrow> ret () (m'\<lparr>transitionTimeout := Some h\<rparr>))"
    by (simp add: keeps_def frame_def setTimeout_def ret_def split: option.splits)
qed

lemma frame_handleTransitionError:
  assumes "{IsTransitioning, Error, IsError} \<subseteq> K" "P (TransitionError e)"
  shows "keeps (frame K P C) (handleTransitionError E e)"
  unfolding handleTransitionError_def
  by (intro frame_struct frame_modify frame_emit) (use assms in \<open>auto intro: get_frame\<close>)

lemma frame_emitChanges:
  assumes "\<And>k v t. (k, v) \<in> set es \<Longrightarrow> v \<noteq> get k old \<Longrightarrow> P (FieldChange k (get k old) v t)"
  shows "keeps (frame K P C) (emitChanges E old es)"
  using assms
proof (induction es)
  case Nil
  then show ?case by (simp add: frame_struct)
next
  case (Cons a es)
  obtain k v where a: "a = (k, v)" by (cases a)
  have 1: "keeps (frame K P C) (emitChanges E old es)" using Cons by simp
  have 2: "keeps (frame K P C)
             (if v \<noteq> get k old
              then bnd (dateNow E) (\<lambda>t. emit E (FieldChange k (get k old) v t))
              else ret ())"
  proof (cases "v \<noteq> get k old")
    case True
    then have "P (FieldChange k (get k old) v t)" for t
      using Cons.prems [of k v t] a by simp
    with True show ?thesis by (simp add: frame_struct frame_emit)
  next
    case False
    then show ?thesis by (simp add: frame_struct)
  qed
  show ?case unfolding a emitChanges.simps
    by (rule keeps_bnd [OF frame_reflTrans 2]) (rule 1)
qed

lemma frame_handleStateChange:
  assumes "PreviousNode \<in> K" "\<And>a b. keeps (frame K P C) (onSelection a b)"
  shows "keeps (frame K P C) (handleStateChange onSelection E old new)"
  unfolding handleStateChange_def
  by (intro frame_struct frame_modify assms(2)) (use assms(1) in \<open>auto intro: get_frame\<close>)

lemma frame_updateState_try:
  assumes "{IsTransitioning, LastUpdate, PreviousNode} \<union> key ` set p \<subseteq> K"
    and "P TransitionStart" "P TransitionEnd"
    and "\<And>k v t old. (k, v) \<in> set (objEntries p) \<Longrightarrow> v \<noteq> get k old \<Longrightarrow>
           P (FieldChange k (get k old) v t)"
    and "\<And>a b. keeps (frame K P C) (onSelection a b)"
  shows "keeps (frame K P C) (updateState_try onSelection E p)"
  unfolding updateState_try_def
proof (intro frame_struct frame_startTransition frame_endTransition frame_emitChanges
    frame_handleStateChange frame_modify assms(5))
  fix s k assume "k \<notin> K"
  then show "get k (merge p s) = get k s" using assms(1) by (intro get_merge_other) auto
qed (use assms in \<open>auto intro: get_frame\<close>)

lemma frame_updateState_with:
  assumes "{IsTransitioning, LastUpdate, PreviousNode, Error, IsError} \<union> key ` set p \<subseteq> K"
    and "P TransitionStart" "P TransitionEnd" "\<And>e. P (TransitionError e)"
    and "\<And>k v t old. (k, v) \<in> set (objEntries p) \<Longrightarrow> v \<noteq> get k old \<Longrightarrow>
           P (FieldChange k (get k old) v t)"
    and "\<And>a b. keeps (frame K P C) (onSelection a b)"
  shows "keeps (frame K P C) (updateState_with onSelection E p)"
  unfolding updateState_with_def
  by (intro frame_struct frame_updateState_try frame_handleTransitionError assms(5,6))
     (use assms(1-4) in \<open>auto intro: get_frame\<close>)

subsection \<open>updateState and handleSelectionChange call each other\<close>

lemma selectedNode_merge_flag [simp]: "selectedNode (merge [SetIsTransitioning b] s) = selectedNode s"
  by (simp add: merge_def)

lemma handleStateChange_unselected:
  assumes "selectedNode new = selectedNode old"
  shows "handleStateChange f E old new = handleStateChange g E old new"
  using assms by (simp add: handleStateChange_def)

lemma updateState_unfold:
  "updateState E [SetIsTransitioning b] = updateState_inner E [SetIsTransitioning b]"
proof -
  have "handleStateChange (handleSelectionChange E) E old (merge [SetIsTransitioning b] old) =
        handleStateChange (\<lambda>new old. ret ()) E old (merge [SetIsTransitioning b] old)" for old
    by (rule handleStateChange_unselected) simp
  then have eq: "updateState_try (handleSelectionChange E) E [SetIsTransitioning b] =
        updateState_try (\<lambda>new old. ret ()) E [SetIsTransitioning b]"
    unfolding updateState_try_def by simp
  show ?thesis
    unfolding updateState_def updateState_inner_def updateState_with_def eq ..
qed

lemma handleSelectionChange_unfold:
  "handleSelectionChange E = handleSelectionChange_with (updateState E) E"
  by (rule ext)+
     (simp add: handleSelectionChange_def handleSelectionChange_with_def updateState_unfold)

subsection \<open>Frames of the selection handler and of updateState\<close>

lemma frame_selectionEffects: "keeps (frame K P False) (selectionEffects E a b)"
proof -
  have p: "keeps (frame K P False) (preloadIfNeeded E n)" for n
    by (simp add: keeps_def frame_def preloadIfNeeded_def ctl split: option.splits)
  have h: "keeps (frame K P False) (hostHandleError e)" for e
    by (simp add: keeps_def frame_def hostHandleError_def ctl split: option.splits)
  show ?thesis
    unfolding selectionEffects_def by (intro frame_struct p h)
qed

lemma frame_handleSelectionChange_with:
  assumes "\<And>p. keeps (frame K P False) (update p)"
  shows "keeps (frame K P False) (handleSelectionChange_with update E a b)"
  unfolding handleSelectionChange_with_def
  by (intro frame_struct frame_selectionEffects assms)

lemma live_inner: "keeps (frame UNIV anyEvent False) (updateState_inner E p)"
  unfolding updateState_inner_def
  by (intro frame_updateState_with frame_struct) (simp_all add: anyEvent_def)

lemma live_handleSelectionChange: "keeps (frame UNIV anyEvent False) (handleSelectionChange E a b)"
  unfolding handleSelectionChange_def
  by (intro frame_handleSelectionChange_with live_inner)

lemma live_updateState_try:
  "keeps (frame UNIV anyEvent False) (updateState_try (handleSelectionChange E) E p)"
  by (intro frame_updateState_try live_handleSelectionChange) (simp_all add: anyEvent_def)

lemma frame_live: "frame K P C m m' \<Longrightarrow> state m = Some s \<Longrightarrow> \<exists>s'. state m' = Some s'"
  by (auto simp: frame_def)

lemma handleTransitionError_live:
  assumes "state m = Some s"
  shows "handleTransitionError E e m =
           (Inl (case listener E (TransitionError e) of None \<Rightarrow> e | Some x \<Rightarrow> x),
            m\<lparr>state := Some (s\<lparr>isTransitioning := False, error := Some e, isError := True\<rparr>),
              emitted := emitted m @ [TransitionError e]\<rparr>)"
  using assms by (simp add: handleTransitionError_def ctl split: option.splits)

lemma handleTransitionError_throws: "\<exists>x m'. handleTransitionError E e m = (Inl x, m')"
  by (cases "state m") (auto simp: handleTransitionError_def ctl split: option.splits)

text \<open>
  C3.  When the \<open>try\<close> block of \<open>updateState\<close> (the merge, the handlers, the change
  events, the end of the transition) throws \<open>e\<close>, in a manager that is not being
  destroyed: \<open>updateState\<close> does not return normally, \<open>state.error\<close> is \<open>e\<close>,
  \<open>isError\<close> is true and \<open>isTransitioning\<close> is false.  The value thrown to the caller
  is \<open>e\<close> itself unless a listener of \<open>transition:error\<close> throws in its turn.
\<close>

theorem transition_error:
  assumes "state m = Some s" "\<not> isDestroying s"
    and "fst (updateState_try (handleSelectionChange E) E p m) = Inl e"
  shows "(\<exists>x. fst (updateState E p m) = Inl x \<and> (listener E (TransitionError e) = None \<longrightarrow> x = e)) \<and>
         map_option error (state (snd (updateState E p m))) = Some (Some e) \<and>
         map_option isError (state (snd (updateState E p m))) = Some True \<and>
         map_option isTransitioning (state (snd (updateState E p m))) = Some False"
proof -
  obtain m1 where body: "updateState_try (handleSelectionChange E) E p m = (Inl e, m1)"
    using assms(3) by (cases "updateState_try (handleSelectionChange E) E p m") auto
  from keepsD [OF live_updateState_try body] assms(1)
  obtain s1 where s1: "state m1 = Some s1" using frame_live by blast
  have "updateState E p m = bnd (handleTransitionError E e) (\<lambda>_. ret False) m1"
    using assms(1,2) body by (simp add: updateState_def updateState_with_def ctl)
  then show ?thesis
    using handleTransitionError_live [OF s1, of E e]
    by (simp add: bnd_def split: option.splits)
qed

theorem transition_error_witness:
  "state newStateManager = Some initialState \<and> \<not> isDestroying initialState \<and>
   fst (updateState_try (handleSelectionChange asWritten) asWritten [SetData (Some 7)]
          newStateManager) = Inl (TypeError ''handleDataChange is not a function'') \<and>
   fst (updateState asWritten [SetData (Some 7)] newStateManager) =
     Inl (TypeError ''handleDataChange is not a function'') \<and>
   map_option isError (state (snd (updateState asWritten [SetData (Some 7)] newStateManager)))
     = Some True"
proof -
  have a: "state newStateManager = Some initialState"
    by (simp add: newStateManager_def)
  have b: "\<not> isDestroying initialState"
    by (simp add: initialState_def)
  have c: "fst (updateState_try (handleSelectionChange asWritten) asWritten [SetData (Some 7)]
          newStateManager) = Inl (TypeError ''handleDataChange is not a function'')"
    by (simp add: ops ctl asWritten_def newStateManager_def initialState_def)
  have d: "listener asWritten (TransitionError (TypeError ''handleDataChange is not a function'')) = None"
    by (simp add: asWritten_def)
  show ?thesis
    using a b c d transition_error [OF a b c] by auto
qed

subsection \<open>Preloading on selection\<close>

lemma frame_flag_update:
  "keeps (frame {IsTransitioning, LastUpdate, PreviousNode, Error, IsError} anyEvent True)
     (updateState_inner E [SetIsTransitioning b])"
  unfolding updateState_inner_def
  by (intro frame_updateState_with frame_struct) (simp_all add: anyEvent_def)

lemma flag_update_calls:
  assumes "updateState_inner E [SetIsTransitioning b] m = (r, m')" "state m = Some s"
  shows "preloads m' = preloads m \<and> sets m' = sets m \<and>
         (\<exists>s'. state m' = Some s' \<and> contentLoaded s' = contentLoaded s)"
proof -
  from keepsD [OF frame_flag_update assms(1)]
  have f: "frame {IsTransitioning, LastUpdate, PreviousNode, Error, IsError} anyEvent True m m'" .
  then obtain s' where s': "state m' = Some s'"
    and k: "\<forall>k. k \<notin> {IsTransitioning, LastUpdate, PreviousNode, Error, IsError} \<longrightarrow>
              get k s' = get k s"
    using assms(2) by (auto simp: frame_def)
  have "ContentLoaded \<notin> {IsTransitioning, LastUpdate, PreviousNode, Error, IsError}" by simp
  with k have "get ContentLoaded s' = get ContentLoaded s" by blast
  then have "contentLoaded s' = contentLoaded s" by simp
  with f s' show ?thesis by (simp add: frame_def)
qed

lemma selectionEffects_calls:
  assumes "selectionEffects E newNode oldNode m = (r, m')" "state m = Some s"
  shows "state m' = Some s \<and>
         (case newNode of
            None \<Rightarrow> preloads m' = preloads m \<and> sets m' = sets m
          | Some n \<Rightarrow>
              if nodeId E n \<in> sets m (contentLoaded s)
              then preloads m' = preloads m \<and> sets m' = sets m
              else preloads m' = preloads m @ [nodeId E n] \<and>
                   sets m' =
                     (if preload E (nodeId E n) = None
                      then (sets m)(contentLoaded s :=
                             insert (nodeId E n) (sets m (contentLoaded s)))
                      else sets m))"
  using assms
  by (cases newNode)
     (auto simp: selectionEffects_def preloadIfNeeded_def hostHandleError_def ctl
           split: option.splits if_splits)

text \<open>
  C5, amended.  \<open>handleSelectionChange\<close> issues no preload when nothing is selected or
  when the selected node's id is in the \<open>contentLoaded\<close> Set (which it then leaves as it
  is).  For an id that is not in the Set it issues exactly one preload, unless its opening
  \<open>updateState\<close> call throws, in which case it issues none; the id is added to the Set
  when that preload succeeds and is not added when it fails.
\<close>

theorem preload_once:
  assumes "state m = Some s" "handleSelectionChange E newNode oldNode m = (r, m')"
  shows "case newNode of
           None \<Rightarrow> preloads m' = preloads m \<and> sets m' = sets m
         | Some n \<Rightarrow>
             if nodeId E n \<in> sets m (contentLoaded s)
             then preloads m' = preloads m \<and> sets m' = sets m
             else if (\<exists>e. fst (updateState E [SetIsTransitioning True] m) = Inl e)
             then preloads m' = preloads m \<and> sets m' = sets m
             else preloads m' = preloads m @ [nodeId E n] \<and>
                  sets m' =
                    (if preload E (nodeId E n) = None
                     then (sets m)(contentLoaded s :=
                            insert (nodeId E n) (sets m (contentLoaded s)))
                     else sets m)"
proof -
  obtain r1 m1 where n1: "updateState_inner E [SetIsTransitioning True] m = (r1, m1)"
    by (cases "updateState_inner E [SetIsTransitioning True] m")
  from flag_update_calls [OF n1 assms(1)] obtain s1 where
    m1: "preloads m1 = preloads m" "sets m1 = sets m" "state m1 = Some s1"
      "contentLoaded s1 = contentLoaded s"
    by blast
  have u: "fst (updateState E [SetIsTransitioning True] m) = r1"
    using n1 by (simp add: updateState_unfold)
  show ?thesis
  proof (cases r1)
    case (Inl e)
    then have "m' = m1"
      using assms(2) n1 by (simp add: handleSelectionChange_def handleSelectionChange_with_def bnd_def)
    with m1 u Inl show ?thesis by (simp split: option.splits)
  next
    case (Inr b)
    obtain r2 m2 where e: "selectionEffects E newNode oldNode m1 = (r2, m2)"
      by (cases "selectionEffects E newNode oldNode m1")
    obtain r3 m3 where n3: "updateState_inner E [SetIsTransitioning False] m2 = (r3, m3)"
      by (cases "updateState_inner E [SetIsTransitioning False] m2")
    from selectionEffects_calls [OF e m1(3)] have m2: "state m2 = Some s1" by simp
    from flag_update_calls [OF n3 m2] have m3: "preloads m3 = preloads m2" "sets m3 = sets m2"
      by simp_all
    have "m' = m3"
      using assms(2) n1 Inr e n3
      by (cases r3)
         (simp_all add: handleSelectionChange_def handleSelectionChange_with_def bnd_def
            tryFinally_def)
    with m1 m3 u Inr selectionEffects_calls [OF e m1(3)] show ?thesis
      by (simp split: option.splits if_splits)
  qed
qed

text \<open>
  C5 as stated has the id added to the Set after the preload.  When the preload fails,
  the \<open>catch\<close> block hands the error to the host and the id is not added: the call was
  issued for id 4 and 4 is not in the Set afterwards.
\<close>

theorem preload_id_added_counterexample:
  "preloads (snd (handleSelectionChange failingPreload (Some 4) None newStateManager)) = [4] \<and>
   4 \<notin> sets (snd (handleSelectionChange failingPreload (Some 4) None newStateManager)) 0 \<and>
   map_option contentLoaded
     (state (snd (handleSelectionChange failingPreload (Some 4) None newStateManager))) = Some 0"
  by (simp add: ops ctl failingPreload_def quiet_def asWritten_def newStateManager_def
        initialState_def)

theorem preload_once_witness:
  "state newStateManager = Some initialState \<and>
   preloads (snd (handleSelectionChange quiet (Some 4) None newStateManager)) = [4] \<and>
   4 \<in> sets (snd (handleSelectionChange quiet (Some 4) None newStateManager)) 0 \<and>
   preloads (snd (handleSelectionChange quiet (Some 4) None
     (snd (handleSelectionChange quiet (Some 4) None newStateManager)))) = [4]"
proof -
  have a: "state newStateManager = Some initialState"
    by (simp add: newStateManager_def)
  obtain r m' where h: "handleSelectionChange quiet (Some 4) None newStateManager = (r, m')"
    by (cases "handleSelectionChange quiet (Some 4) None newStateManager")
  have v: "preloads m' = [4] \<and> 4 \<in> sets m' 0 \<and> (\<exists>s'. state m' = Some s' \<and> contentLoaded s' = 0)"
    using h by (auto simp: ops ctl quiet_def asWritten_def newStateManager_def initialState_def)
  then obtain s' where s': "state m' = Some s'" "contentLoaded s' = 0" by blast
  obtain r2 m2 where h2: "handleSelectionChange quiet (Some 4) None m' = (r2, m2)"
    by (cases "handleSelectionChange quiet (Some 4) None m'")
  from preload_once [OF s'(1) h2] v s'(2) have "preloads m2 = [4]"
    by (simp add: quiet_def asWritten_def)
  with a h h2 v show ?thesis by simp
qed

subsection \<open>The entries of a partial state\<close>

lemma objEntries_snoc:
  "objEntries (p @ [u]) = AList.update (key u) (newValue u) (objEntries p)"
  by (simp add: objEntries_def)

lemma merge_snoc: "merge (p @ [u]) s = assign u (merge p s)"
  by (simp add: merge_def)

lemma entries_merge:
  "distinct (map fst (objEntries p)) \<and>
   map_of (objEntries p) k = (if k \<in> key ` set p then Some (get k (merge p s)) else None)"
proof (induction p rule: rev_induct)
  case Nil
  then show ?case by (simp add: objEntries_def)
next
  case (snoc u p)
  then show ?case
    by (simp add: objEntries_snoc merge_snoc update_conv' distinct_update get_assign)
qed

lemma entry_value:
  assumes "(k, v) \<in> set (objEntries p)"
  shows "get k (merge p s) = v" and "k \<in> key ` set p"
proof -
  have "map_of (objEntries p) k = Some v"
    using assms entries_merge [of p] by simp
  then show "get k (merge p s) = v" and "k \<in> key ` set p"
    using entries_merge [of p k s] by (auto split: if_splits)
qed

subsection \<open>The steps of a call that returns\<close>

lemma startTransition_live:
  assumes "state m = Some s" "startTransition E m = (r, m1)"
  shows "state m1 = Some (s\<lparr>isTransitioning := True\<rparr>)"
    and "emitted m1 = emitted m @ [TransitionStart]"
  using assms
  by (auto simp: startTransition_def clearTimeout_def ctl split: option.splits)

lemma updateState_with_Inr:
  assumes "state m = Some s" "updateState_with onSel E p m = (Inr True, m')"
  shows "\<not> isDestroying s \<and> updateState_try onSel E p m = (Inr True, m')"
proof -
  have nd: "\<not> isDestroying s"
    using assms by (auto simp: updateState_with_def ctl)
  obtain r mb where body: "updateState_try onSel E p m = (r, mb)"
    by (cases "updateState_try onSel E p m")
  have "r = Inr True \<and> mb = m'"
  proof (cases r)
    case (Inl e)
    obtain x mx where "handleTransitionError E e mb = (Inl x, mx)"
      using handleTransitionError_throws by blast
    with Inl body assms nd show ?thesis
      by (simp add: updateState_with_def ctl)
  next
    case (Inr b)
    with body assms nd show ?thesis
      by (simp add: updateState_with_def ctl)
  qed
  with nd body show ?thesis by simp
qed

lemma updateState_steps:
  assumes "state m = Some s" "updateState_with onSel E p m = (Inr True, m')"
  shows "\<exists>m2 m3 m4 m5 m6 t.
           state m2 = Some (merge p (s\<lparr>isTransitioning := True\<rparr>)) \<and>
           emitted m2 = emitted m @ [TransitionStart] \<and>
           handleStateChange onSel E (s\<lparr>isTransitioning := True\<rparr>)
             (merge p (s\<lparr>isTransitioning := True\<rparr>)) m2 = (Inr (), m3) \<and>
           emitChanges E (s\<lparr>isTransitioning := True\<rparr>) (objEntries p) m3 = (Inr (), m4) \<and>
           dateNow E m4 = (Inr t, m5) \<and>
           modify (\<lambda>s. s\<lparr>lastUpdate := t\<rparr>) m5 = (Inr (), m6) \<and>
           endTransition E m6 = (Inr (), m')"
proof -
  from updateState_with_Inr [OF assms]
  have body: "updateState_try onSel E p m = (Inr True, m')" by simp
  from body [unfolded updateState_try_def]
  obtain u1 m1 where 1: "startTransition E m = (Inr u1, m1)"
    and r1: "bnd (gets (\<lambda>s. s)) (\<lambda>oldState.
     bnd (modify (merge p)) (\<lambda>_.
     bnd (handleStateChange onSel E oldState (merge p oldState)) (\<lambda>_.
     bnd (emitChanges E oldState (objEntries p)) (\<lambda>_.
     bnd (dateNow E) (\<lambda>t.
     bnd (modify (\<lambda>s. s\<lparr>lastUpdate := t\<rparr>)) (\<lambda>_.
     bnd (endTransition E) (\<lambda>_.
     ret True))))))) m1 = (Inr True, m')"
    by (rule bnd_Inr)
  from startTransition_live [OF assms(1) 1]
  have s1: "state m1 = Some (s\<lparr>isTransitioning := True\<rparr>)"
    and e1: "emitted m1 = emitted m @ [TransitionStart]" by simp_all
  let ?old = "s\<lparr>isTransitioning := True\<rparr>"
  from r1 s1 have r2: "bnd (modify (merge p)) (\<lambda>_.
     bnd (handleStateChange onSel E ?old (merge p ?old)) (\<lambda>_.
     bnd (emitChanges E ?old (objEntries p)) (\<lambda>_.
     bnd (dateNow E) (\<lambda>t.
     bnd (modify (\<lambda>s. s\<lparr>lastUpdate := t\<rparr>)) (\<lambda>_.
     bnd (endTransition E) (\<lambda>_.
     ret True)))))) m1 = (Inr True, m')"
    by (simp add: bnd_def gets_def)
  define m2 where "m2 = m1\<lparr>state := Some (merge p ?old)\<rparr>"
  from r2 s1 have r3: "
     bnd (handleStateChange onSel E ?old (merge p ?old)) (\<lambda>_.
     bnd (emitChanges E ?old (objEntries p)) (\<lambda>_.
     bnd (dateNow E) (\<lambda>t.
     bnd (modify (\<lambda>s. s\<lparr>lastUpdate := t\<rparr>)) (\<lambda>_.
     bnd (endTransition E) (\<lambda>_.
     ret True))))) m2 = (Inr True, m')"
    by (simp add: bnd_def modify_def m2_def)
  from r3 obtain u3 m3 where 3: "handleStateChange onSel E ?old (merge p ?old) m2 = (Inr u3, m3)"
    and r4: "bnd (emitChanges E ?old (objEntries p)) (\<lambda>_.
     bnd (dateNow E) (\<lambda>t.
     bnd (modify (\<lambda>s. s\<lparr>lastUpdate := t\<rparr>)) (\<lambda>_.
     bnd (endTransition E) (\<lambda>_.
     ret True)))) m3 = (Inr True, m')"
    by (rule bnd_Inr)
  from r4 obtain u4 m4 where 4: "emitChanges E ?old (objEntries p) m3 = (Inr u4, m4)"
    and r5: "bnd (dateNow E) (\<lambda>t.
     bnd (modify (\<lambda>s. s\<lparr>lastUpdate := t\<rparr>)) (\<lambda>_.
     bnd (endTransition E) (\<lambda>_.
     ret True))) m4 = (Inr True, m')"
    by (rule bnd_Inr)
  from r5 obtain t m5 where 5: "dateNow E m4 = (Inr t, m5)"
    and r6: "bnd (modify (\<lambda>s. s\<lparr>lastUpdate := t\<rparr>)) (\<lambda>_.
     bnd (endTransition E) (\<lambda>_.
     ret True)) m5 = (Inr True, m')"
    by (rule bnd_Inr)
  from r6 obtain u6 m6 where 6: "modify (\<lambda>s. s\<lparr>lastUpdate := t\<rparr>) m5 = (Inr u6, m6)"
    and r7: "bnd (endTransition E) (\<lambda>_. ret True) m6 = (Inr True, m')"
    by (rule bnd_Inr)
  from r7 obtain u7 m7 where 7: "endTransition E m6 = (Inr u7, m7)"
    and r8: "ret True m7 = (Inr True, m')"
    by (rule bnd_Inr)
  from r8 have "m7 = m'" by (simp add: ret_def)
  with 7 have e7: "endTransition E m6 = (Inr (), m')" by simp
  have "state m2 = Some (merge p ?old)" "emitted m2 = emitted m @ [TransitionStart]"
    using e1 by (simp_all add: m2_def)
  with 3 4 5 6 e7 show ?thesis by auto
qed

lemma keepsOk_tryCatch_throws:
  assumes "keepsOk R f" "\<And>e m. \<exists>x m'. h e m = (Inl x, m')"
  shows "keepsOk R (tryCatch f h)"
  unfolding keepsOk_def
proof (intro allI impI)
  fix m y m' assume a: "tryCatch f h m = (Inr y, m')"
  obtain r m1 where f: "f m = (r, m1)" by (cases "f m")
  show "R m m'"
  proof (cases r)
    case (Inr x)
    with a f have "f m = (Inr y, m')" by (simp add: tryCatch_def)
    then show ?thesis using keepsOkD [OF assms(1)] by blast
  next
    case (Inl e)
    obtain x mx where "h e m1 = (Inl x, mx)" using assms(2) by blast
    with a f Inl show ?thesis by (simp add: tryCatch_def)
  qed
qed

lemma catch_throws: "\<exists>x m'. bnd (handleTransitionError E e) (\<lambda>_. ret False) m = (Inl x, m')"
  using handleTransitionError_throws [of E e m] by (auto simp: bnd_def)

lemma inner_ok:
  "keepsOk (frame innerKeys flagEvent C) (updateState_inner E [SetIsTransitioning b])"
proof -
  have body: "keeps (frame innerKeys flagEvent C)
                (updateState_try (\<lambda>new old. ret ()) E [SetIsTransitioning b])"
    by (intro frame_updateState_try frame_struct)
       (auto simp: innerKeys_def flagEvent_def objEntries_def)
  have "keepsOk (frame innerKeys flagEvent C)
          (tryCatch (updateState_try (\<lambda>new old. ret ()) E [SetIsTransitioning b])
             (\<lambda>e. bnd (handleTransitionError E e) (\<lambda>_. ret False)))"
    by (rule keepsOk_tryCatch_throws [OF keeps_keepsOk [OF body]]) (rule catch_throws)
  then have "keepsOk (frame innerKeys flagEvent C)
          (if d then ret False
           else tryCatch (updateState_try (\<lambda>new old. ret ()) E [SetIsTransitioning b])
                  (\<lambda>e. bnd (handleTransitionError E e) (\<lambda>_. ret False)))" for d
    using keeps_keepsOk [OF keeps_ret [OF frame_reflTrans], of innerKeys flagEvent C False]
    by (cases d) simp_all
  then show ?thesis
    unfolding updateState_inner_def updateState_with_def
    by (intro keepsOk_bnd [OF frame_reflTrans] keeps_keepsOk [OF keeps_gets [OF frame_reflTrans]])
qed

lemma selection_ok:
  "keepsOk (frame innerKeys flagEvent False) (handleSelectionChange E a b)"
  unfolding handleSelectionChange_def handleSelectionChange_with_def
  by (intro keepsOk_bnd [OF frame_reflTrans] keepsOk_tryFinally [OF frame_reflTrans]
        inner_ok keeps_keepsOk frame_selectionEffects)

lemma handleStateChange_ok:
  "keepsOk (frame innerKeys flagEvent False)
     (handleStateChange (handleSelectionChange E) E old new)"
  unfolding handleStateChange_def
  by (intro keepsOk_bnd [OF frame_reflTrans] keepsOk_if selection_ok keeps_keepsOk
        frame_struct frame_modify)
     (auto simp: innerKeys_def intro: get_frame)

lemma emitChanges_log:
  assumes "emitChanges E old es m = (Inr (), m')"
  shows "state m' = state m \<and>
         (\<exists>new. emitted m' = emitted m @ new \<and>
            (\<forall>ev \<in> set new. namedChange old es ev) \<and>
            (\<forall>k v. (k, v) \<in> set es \<longrightarrow> v \<noteq> get k old \<longrightarrow>
               (\<exists>t. FieldChange k (get k old) v t \<in> set new)))"
  using assms
proof (induction es arbitrary: m)
  case Nil
  then show ?case by (simp add: ret_def)
next
  case (Cons a es)
  obtain k v where a: "a = (k, v)" by (cases a)
  from Cons.prems [unfolded a emitChanges.simps]
  obtain u m1 where
    1: "(if v \<noteq> get k old
         then bnd (dateNow E) (\<lambda>t. emit E (FieldChange k (get k old) v t))
         else ret ()) m = (Inr u, m1)"
    and 2: "emitChanges E old es m1 = (Inr (), m')"
    by (rule bnd_Inr)
  from Cons.IH [OF 2] obtain n2 where
    st: "state m' = state m1" and lg: "emitted m' = emitted m1 @ n2"
    and snd2: "\<forall>ev \<in> set n2. namedChange old es ev"
    and cmp: "\<forall>k v. (k, v) \<in> set es \<longrightarrow> v \<noteq> get k old \<longrightarrow>
               (\<exists>t. FieldChange k (get k old) v t \<in> set n2)"
    by blast
  have mono: "namedChange old (a # es) ev" if "namedChange old es ev" for ev
    using that by (cases ev) (auto simp: namedChange_def)
  show ?case
  proof (cases "v \<noteq> get k old")
    case False
    with 1 have "m1 = m" by (simp add: ret_def)
    with st lg snd2 cmp mono False a show ?thesis by auto
  next
    case True
    with 1 obtain t where
      m1: "state m1 = state m" "emitted m1 = emitted m @ [FieldChange k (get k old) v t]"
      by (auto simp: ctl Let_def split: option.splits)
    have here: "namedChange old (a # es) (FieldChange k (get k old) v t)"
      using True a by (simp add: namedChange_def)
    have l: "emitted m' = emitted m @ (FieldChange k (get k old) v t # n2)"
      using lg m1 by simp
    have n: "\<forall>ev \<in> set (FieldChange k (get k old) v t # n2). namedChange old (a # es) ev"
      using here snd2 mono by auto
    have c: "\<forall>k' v'. (k', v') \<in> set (a # es) \<longrightarrow> v' \<noteq> get k' old \<longrightarrow>
               (\<exists>t'. FieldChange k' (get k' old) v' t' \<in> set (FieldChange k (get k old) v t # n2))"
      using cmp a by auto
    have "state m' = state m" using st m1 by simp
    moreover have "\<exists>new. emitted m' = emitted m @ new \<and>
            (\<forall>ev \<in> set new. namedChange old (a # es) ev) \<and>
            (\<forall>k v. (k, v) \<in> set (a # es) \<longrightarrow> v \<noteq> get k old \<longrightarrow>
               (\<exists>t. FieldChange k (get k old) v t \<in> set new))"
      using l n c by (intro exI [of _ "FieldChange k (get k old) v t # n2"] conjI)
    ultimately show ?thesis by (rule conjI)
  qed
qed

lemma tail_frame:
  assumes "dateNow E m4 = (Inr t, m5)" "modify (\<lambda>s. s\<lparr>lastUpdate := t\<rparr>) m5 = (Inr (), m6)"
    "endTransition E m6 = (Inr (), m')"
  shows "frame innerKeys endEvent True m4 m'"
proof -
  have 1: "frame innerKeys endEvent True m4 m5"
    using keepsD [OF frame_dateNow assms(1)] .
  have "keeps (frame innerKeys endEvent True) (modify (\<lambda>s. s\<lparr>lastUpdate := t\<rparr>))"
    by (rule frame_modify) (auto simp: innerKeys_def intro: get_frame)
  from keepsD [OF this assms(2)] have 2: "frame innerKeys endEvent True m5 m6" .
  have "keeps (frame innerKeys endEvent True) (endTransition E)"
    by (rule frame_endTransition) (simp_all add: innerKeys_def endEvent_def)
  from keepsD [OF this assms(3)] have 3: "frame innerKeys endEvent True m6 m'" .
  from 1 2 3 show ?thesis using frame_trans by blast
qed

text \<open>
  C1, amended.  For every call of \<open>updateState\<close> that returns true: a change event is
  emitted for every field named in the argument whose new value differs from the snapshot
  taken after \<open>startTransition\<close>, with that snapshot's value as \<open>oldValue\<close> and the
  argument's value as \<open>newValue\<close>; every other change event of the call is one of
  \<open>isTransitioning\<close>, from the nested calls of the selection handler.  The snapshot is the
  state before the call except for \<open>isTransitioning\<close> (already true), and the argument's
  value is the field's value after the call except for \<open>isTransitioning\<close>, \<open>lastUpdate\<close>
  and \<open>previousNode\<close>.
\<close>

theorem change_events:
  assumes "state m = Some s" "updateState E p m = (Inr True, m')"
  shows "\<exists>new s'. emitted m' = emitted m @ new \<and> state m' = Some s' \<and>
          (\<forall>k v. (k, v) \<in> set (objEntries p) \<longrightarrow> v \<noteq> get k (s\<lparr>isTransitioning := True\<rparr>) \<longrightarrow>
             (\<exists>t. FieldChange k (get k (s\<lparr>isTransitioning := True\<rparr>)) v t \<in> set new)) \<and>
          (\<forall>k ov nv t. FieldChange k ov nv t \<in> set new \<longrightarrow>
             k = IsTransitioning \<or>
             ((k, nv) \<in> set (objEntries p) \<and> ov = get k (s\<lparr>isTransitioning := True\<rparr>) \<and>
              nv \<noteq> ov)) \<and>
          (\<forall>k. k \<noteq> IsTransitioning \<longrightarrow> get k (s\<lparr>isTransitioning := True\<rparr>) = get k s) \<and>
          (\<forall>k v. (k, v) \<in> set (objEntries p) \<longrightarrow>
             k \<notin> {IsTransitioning, LastUpdate, PreviousNode} \<longrightarrow> get k s' = v)"
proof -
  let ?old = "s\<lparr>isTransitioning := True\<rparr>"
  from updateState_steps [OF assms(1) assms(2) [unfolded updateState_def]]
  obtain m2 m3 m4 m5 m6 t where
    s2: "state m2 = Some (merge p ?old)" and e2: "emitted m2 = emitted m @ [TransitionStart]"
    and 3: "handleStateChange (handleSelectionChange E) E ?old (merge p ?old) m2 = (Inr (), m3)"
    and 4: "emitChanges E ?old (objEntries p) m3 = (Inr (), m4)"
    and 5: "dateNow E m4 = (Inr t, m5)"
    and 6: "modify (\<lambda>s. s\<lparr>lastUpdate := t\<rparr>) m5 = (Inr (), m6)"
    and 7: "endTransition E m6 = (Inr (), m')"
    by blast
  from keepsOkD [OF handleStateChange_ok 3] s2
  obtain s3 n3 where s3: "state m3 = Some s3"
    and k3: "\<forall>k. k \<notin> innerKeys \<longrightarrow> get k s3 = get k (merge p ?old)"
    and e3: "emitted m3 = emitted m2 @ n3" and p3: "\<forall>ev \<in> set n3. flagEvent ev"
    by (auto simp: frame_def)
  from emitChanges_log [OF 4] obtain n4 where s4: "state m4 = state m3"
    and e4: "emitted m4 = emitted m3 @ n4"
    and p4: "\<forall>ev \<in> set n4. namedChange ?old (objEntries p) ev"
    and c4: "\<forall>k v. (k, v) \<in> set (objEntries p) \<longrightarrow> v \<noteq> get k ?old \<longrightarrow>
               (\<exists>t. FieldChange k (get k ?old) v t \<in> set n4)"
    by blast
  from tail_frame [OF 5 6 7] s4 s3
  obtain s' n5 where s': "state m' = Some s'"
    and k5: "\<forall>k. k \<notin> innerKeys \<longrightarrow> get k s' = get k s3"
    and e5: "emitted m' = emitted m4 @ n5" and p5: "\<forall>ev \<in> set n5. endEvent ev"
    by (auto simp: frame_def)
  let ?new = "TransitionStart # n3 @ n4 @ n5"
  have lg: "emitted m' = emitted m @ ?new" using e2 e3 e4 e5 by simp
  have cmp: "\<forall>k v. (k, v) \<in> set (objEntries p) \<longrightarrow> v \<noteq> get k ?old \<longrightarrow>
             (\<exists>t. FieldChange k (get k ?old) v t \<in> set ?new)"
    using c4 by auto
  have snd: "k = IsTransitioning \<or>
             ((k, nv) \<in> set (objEntries p) \<and> ov = get k ?old \<and> nv \<noteq> ov)"
    if "FieldChange k ov nv t \<in> set ?new" for k ov nv t
  proof -
    from that consider "FieldChange k ov nv t \<in> set n3" | "FieldChange k ov nv t \<in> set n4"
      | "FieldChange k ov nv t \<in> set n5" by auto
    then show ?thesis
    proof cases
      case 1
      with p3 have "flagEvent (FieldChange k ov nv t)" by blast
      then show ?thesis by (simp add: flagEvent_def)
    next
      case 2
      with p4 have "namedChange ?old (objEntries p) (FieldChange k ov nv t)" by blast
      then show ?thesis by (auto simp: namedChange_def)
    next
      case 3
      with p5 have "endEvent (FieldChange k ov nv t)" by blast
      then show ?thesis by (simp add: endEvent_def)
    qed
  qed
  have old: "\<forall>k. k \<noteq> IsTransitioning \<longrightarrow> get k ?old = get k s"
  proof (intro allI impI)
    fix k :: field assume "k \<noteq> IsTransitioning"
    then show "get k ?old = get k s" by (cases k) simp_all
  qed
  have aft: "get k s' = v"
    if "(k, v) \<in> set (objEntries p)" "k \<notin> {IsTransitioning, LastUpdate, PreviousNode}" for k v
  proof -
    have "k \<notin> innerKeys" using that(2) by (simp add: innerKeys_def)
    with k5 k3 have "get k s' = get k (merge p ?old)" by simp
    with entry_value(1) [OF that(1)] show ?thesis by simp
  qed
  from lg s' cmp snd old aft show ?thesis by blast
qed

lemmas concrete = ops ctl asWritten_def quiet_def newStateManager_def initialState_def

text \<open>
  C1 as stated has an event for every field that the call changes.  The events are emitted
  for the keys of the argument only.  A call that sets the zoom level turns
  \<open>isTransitioning\<close> from false to true and emits a change event for the zoom level alone;
  a call that selects node 5 while node 4 is selected changes \<open>previousNode\<close> from null to
  node 4 and emits no change event for it.
\<close>

theorem change_events_counterexample:
  "fst (updateState asWritten [SetZoomLevel 2] newStateManager) = Inr True \<and>
   map_option isTransitioning (state newStateManager) = Some False \<and>
   map_option isTransitioning
     (state (snd (updateState asWritten [SetZoomLevel 2] newStateManager))) = Some True \<and>
   emitted (snd (updateState asWritten [SetZoomLevel 2] newStateManager)) =
     [TransitionStart, FieldChange ZoomLevel (VNum 1) (VNum 2) 0] \<and>
   fst (updateState quiet [SetSelectedNode (Some 5)] selected4) = Inr True \<and>
   map_option previousNode (state selected4) = Some None \<and>
   map_option previousNode
     (state (snd (updateState quiet [SetSelectedNode (Some 5)] selected4))) = Some (Some 4) \<and>
   emitted (snd (updateState quiet [SetSelectedNode (Some 5)] selected4)) =
     [TransitionStart, TransitionStart, TransitionStart,
      FieldChange IsTransitioning (VBool True) (VBool False) 0,
      FieldChange SelectedNode (VRef (Some 4)) (VRef (Some 5)) 0]"
  by (simp add: concrete selected4_def)

theorem change_events_witness:
  "state newStateManager = Some initialState \<and>
   fst (updateState asWritten [SetZoomLevel 2] newStateManager) = Inr True \<and>
   (\<exists>t. FieldChange ZoomLevel (VNum 1) (VNum 2) t \<in>
      set (emitted (snd (updateState asWritten [SetZoomLevel 2] newStateManager)))) \<and>
   map_option zoomLevel
     (state (snd (updateState asWritten [SetZoomLevel 2] newStateManager))) = Some 2"
proof -
  have a: "state newStateManager = Some initialState"
    by (simp add: newStateManager_def)
  have b: "fst (updateState asWritten [SetZoomLevel 2] newStateManager) = Inr True"
    by (simp add: concrete)
  then have c: "updateState asWritten [SetZoomLevel 2] newStateManager =
      (Inr True, snd (updateState asWritten [SetZoomLevel 2] newStateManager))"
    by (metis prod.collapse)
  from change_events [OF a c] obtain new s' where
    n: "emitted (snd (updateState asWritten [SetZoomLevel 2] newStateManager)) =
          emitted newStateManager @ new"
    and s': "state (snd (updateState asWritten [SetZoomLevel 2] newStateManager)) = Some s'"
    and e: "\<forall>k v. (k, v) \<in> set (objEntries [SetZoomLevel 2]) \<longrightarrow>
              v \<noteq> get k (initialState\<lparr>isTransitioning := True\<rparr>) \<longrightarrow>
              (\<exists>t. FieldChange k (get k (initialState\<lparr>isTransitioning := True\<rparr>)) v t \<in> set new)"
    and v: "\<forall>k v. (k, v) \<in> set (objEntries [SetZoomLevel 2]) \<longrightarrow>
              k \<notin> {IsTransitioning, LastUpdate, PreviousNode} \<longrightarrow> get k s' = v"
    by blast
  have en: "(ZoomLevel, VNum 2) \<in> set (objEntries [SetZoomLevel 2])"
    by (simp add: objEntries_def)
  have ov: "get ZoomLevel (initialState\<lparr>isTransitioning := True\<rparr>) = VNum 1"
    by (simp add: initialState_def)
  from e [rule_format, OF en] ov
  have "\<exists>t. FieldChange ZoomLevel (VNum 1) (VNum 2) t \<in> set new"
    by simp
  moreover from v en have "get ZoomLevel s' = VNum 2" by blast
  ultimately show ?thesis using a b n s' by (simp add: newStateManager_def)
qed

subsection \<open>The end of a transition\<close>






section \<open>Properties of the reconcilers\<close>



lemma join_keys: "(A \<union> set (enterKeys present ks)) - set (exitKeys present ks) =
    (A - {k \<in> set present. k \<notin> set ks}) \<union> {k \<in> set ks. k \<notin> set present}"
  by (auto simp: enterKeys_def exitKeys_def)




section \<open>Properties of teardown\<close>

text \<open>
  C4.  Destroy is meant to be idempotent and to leave the tracking maps empty.  On an
  initialised instance that tracks nodes 1 and 2 and the path from 1 to 2, with the absent
  \<open>removeAllListeners\<close> taken as present: the first \<open>destroy()\<close> completes, the second throws
  the TypeError of reading \<open>this.state\<close>, which the first call set to null, and the node
  and path maps still hold their entries.  In the code as it stands the first call throws
  already, at \<open>removeAllListeners\<close>, and so does the second.  \<open>NodeManager.destroy\<close> itself leaves \<open>nodeElements\<close> as
  it is, where \<open>PathManager.destroy\<close> and \<open>OuterElementManager.destroy\<close> clear their maps.
\<close>

theorem destroy_twice_throws:
  "fst (destroy quiet instance0) = Inr () \<and>
   cn_state (snd (destroy quiet instance0)) = None \<and>
   fst (destroy quiet (snd (destroy quiet instance0))) = Inl (TypeError ''this.state is null'') \<and>
   dom (nodeElements (cn_nodes (snd (destroy quiet instance0)))) = {1, 2} \<and>
   dom (pathElements (cn_paths (snd (destroy quiet instance0)))) = {(1, 2)} \<and>
   fst (destroy asWritten instance0) =
     Inl (TypeError ''removeAllListeners is not a function'') \<and>
   fst (destroy asWritten (snd (destroy asWritten instance0))) =
     Inl (TypeError ''removeAllListeners is not a function'') \<and>
   dom (nodeElements (cn_nodes (snd (destroy asWritten instance0)))) = {1, 2} \<and>
   dom (nodeElements (NodeManager_destroy idleNodes)) = {1, 2} \<and>
   pathElements (PathManager_destroy idlePaths) = Map.empty \<and>
   indicatorElements (OuterElementManager_destroy idleOuter) = Map.empty \<and>
   labelElements (OuterElementManager_destroy idleOuter) = Map.empty"
proof -
  have "fst (updateState quiet [SetIsDestroying True] newStateManager) = Inr True"
    by (simp add: concrete)
  then obtain sm1 where u1: "updateState quiet [SetIsDestroying True] newStateManager = (Inr True, sm1)"
    by (metis prod.collapse)
  have "fst (updateState asWritten [SetIsDestroying True] newStateManager) = Inr True"
    by (simp add: concrete)
  then obtain sm2 where u2: "updateState asWritten [SetIsDestroying True] newStateManager = (Inr True, sm2)"
    by (metis prod.collapse)
  have q: "removeAllListeners quiet = None"
    "removeAllListeners asWritten = Some (TypeError ''removeAllListeners is not a function'')"
    by (simp_all add: quiet_def asWritten_def)
  have first: "destroy quiet instance0 =
      (Inr (),
       (cleanDOM (instance0\<lparr>cn_state := Some (StateManager_destroy sm1)\<rparr>))
         \<lparr>cn_pendingOperations := None, cn_config := None, cn_state := None,
           cn_display := None, cn_cache := None, cn_viz := None,
           cn_settings := None, cn_controls := None,
           cn_events := cn_events instance0 @ [''destroyed'']\<rparr>)"
    using u1 q(1) by (simp add: destroy_def instance0_def)
  have second: "fst (destroy quiet (snd (destroy quiet instance0))) =
      Inl (TypeError ''this.state is null'')"
    unfolding first by (simp add: destroy_def)
  have maps: "dom (nodeElements (cn_nodes (snd (destroy quiet instance0)))) = {1, 2}"
    "dom (pathElements (cn_paths (snd (destroy quiet instance0)))) = {(1, 2)}"
    unfolding first by (auto simp: cleanDOM_def instance0_def idleNodes_def idlePaths_def)
  have asis1: "destroy asWritten instance0 = (Inl (TypeError ''removeAllListeners is not a function''),
      instance0\<lparr>cn_state := Some sm2\<rparr>)"
    using u2 q(2) by (simp add: destroy_def instance0_def)
  have "map_option isDestroying (state sm2) = Some True"
    using u2 by (auto simp: concrete)
  then obtain s2 where s2: "state sm2 = Some s2" "isDestroying s2" by auto
  then have "updateState asWritten [SetIsDestroying True] sm2 = (Inr False, sm2)"
    by (simp add: updateState_def updateState_with_def ctl)
  then have asis2: "fst (destroy asWritten (snd (destroy asWritten instance0))) =
     Inl (TypeError ''removeAllListeners is not a function'')"
    unfolding asis1 using q(2) by (simp add: destroy_def)
  have asis3: "dom (nodeElements (cn_nodes (snd (destroy asWritten instance0)))) = {1, 2}"
    unfolding asis1 by (auto simp: instance0_def idleNodes_def)
  have asis: "fst (destroy asWritten instance0) =
     Inl (TypeError ''removeAllListeners is not a function'')"
    unfolding asis1 by simp
  have subs: "dom (nodeElements (NodeManager_destroy idleNodes)) = {1, 2}"
    "pathElements (PathManager_destroy idlePaths) = Map.empty"
    "indicatorElements (OuterElementManager_destroy idleOuter) = Map.empty"
    "labelElements (OuterElementManager_destroy idleOuter) = Map.empty"
    by (auto simp: NodeManager_destroy_def PathManager_destroy_def
          OuterElementManager_destroy_def idleNodes_def)
  from first second maps asis asis2 asis3 subs show ?thesis by simp
qed

end
